theory Spec2Isabelle
  imports Complex_Main "HOL-Library.Word" "HOL-Library.AList" "HOL-Library.Multiset"
begin

section \<open>The OCR page pipeline of \<open>streamlit/app.py\<close>\<close>

text \<open>
  The script is modelled as it is written. Calls into libraries (NVML, pdf2image, PIL,
  base64, requests, the clock) are parameters: each is given by its outcome, where
  \<open>Inl msg\<close> is a raised exception with \<open>str(e) = msg\<close> and \<open>Inr v\<close> a returned value.
  Python dictionaries are association lists in insertion order; \<open>d[k] = v\<close> is
  \<open>AList.update\<close> (an existing key keeps its place) and \<open>d[k]\<close> is \<open>map_of\<close>.
  The thread pool appears as the order in which its futures complete: only the main
  thread writes the session state, one future at a time. The display code after line 214
  only reads the session state and is left out.
\<close>

type_synonym bytes = "8 word list"
type_synonym 'a raising = "string + 'a"

definition and_then :: "'a raising \<Rightarrow> ('a \<Rightarrow> 'b raising) \<Rightarrow> 'b raising" where
  "and_then r f = (case r of Inl e \<Rightarrow> Inl e | Inr v \<Rightarrow> f v)"

subsection \<open>Formatting integers and keys\<close>

definition digit_char :: "nat \<Rightarrow> char" where
  "digit_char d = ''0123456789'' ! d"

fun str_nat :: "nat \<Rightarrow> string" where
  "str_nat n = (if n < 10 then [digit_char n] else str_nat (n div 10) @ [digit_char (n mod 10)])"

declare str_nat.simps [simp del]

definition str_int :: "int \<Rightarrow> string" where
  "str_int i = (if i < 0 then CHR ''-'' # str_nat (nat (- i)) else str_nat (nat i))"

text \<open>Python's \<open>repr\<close> of a string without quotes, backslashes or unprintable characters.\<close>

definition repr_str :: "string \<Rightarrow> string" where
  "repr_str s = CHR 0x27 # s @ [CHR 0x27]"

subsection \<open>CapacityEstimator: \<open>MAX_WORKERS\<close> (lines 74-87)\<close>

text \<open>
  The outcome of each NVML call of the block. \<open>mem_info.free\<close> is a C unsigned 64-bit
  count of bytes. \<open>free_mem = mem_info.free / 1024**3\<close> is a float division by a power of
  two, exact below \<open>2^53\<close> bytes, and every larger value is far above the clamp, so the
  quotient is taken in the reals.
\<close>

record nvml =
  nvmlInit :: "unit raising"
  nvmlDeviceGetCount :: "nat raising"
  nvmlDeviceGetHandleByIndex :: "unit raising"
  nvmlDeviceGetMemoryInfo :: "64 word raising"
  nvmlShutdown :: "unit raising"

definition MAX_WORKERS :: "nvml \<Rightarrow> int" where
  "MAX_WORKERS nv =
     (case and_then (nvmlInit nv) (\<lambda>_.
           and_then (nvmlDeviceGetCount nv) (\<lambda>device_count.
           and_then
             (if device_count > 0 then
                and_then (nvmlDeviceGetHandleByIndex nv) (\<lambda>handle.
                and_then (nvmlDeviceGetMemoryInfo nv) (\<lambda>free.
                  let free_mem = real (unat free) / 1024 ^ 3
                  in Inr (min 4 (max 1 \<lfloor>free_mem / 3\<rfloor>))))
              else Inr 2)
             (\<lambda>workers. and_then (nvmlShutdown nv) (\<lambda>_. Inr workers))))
      of Inl e \<Rightarrow> 2
       | Inr workers \<Rightarrow> workers)"

subsection \<open>JSON values and Python subscripting\<close>

datatype json =
    JNull
  | JBool bool
  | JInt int
  | JFloat real
  | JStr string
  | JArr "json list"
  | JObj "(string \<times> json) list"

definition not_subscriptable :: "string \<Rightarrow> string" where
  "not_subscriptable ty = repr_str ty @ '' object is not subscriptable''"

text \<open>
  \<open>x[k]\<close> for a string key \<open>k\<close>: only a dict has one; the rest raise. The texts
  are \<open>str(e)\<close> of the \<open>KeyError\<close>, \<open>IndexError\<close> or \<open>TypeError\<close> of CPython 3.11.
\<close>

fun subscript_key :: "json \<Rightarrow> string \<Rightarrow> json raising" where
  "subscript_key (JObj kvs) k =
     (case map_of kvs k of None \<Rightarrow> Inl (repr_str k) | Some v \<Rightarrow> Inr v)"
| "subscript_key (JArr xs) k = Inl ''list indices must be integers or slices, not str''"
| "subscript_key (JStr s) k = Inl (''string indices must be integers, not '' @ repr_str ''str'')"
| "subscript_key JNull k = Inl (not_subscriptable ''NoneType'')"
| "subscript_key (JBool b) k = Inl (not_subscriptable ''bool'')"
| "subscript_key (JInt i) k = Inl (not_subscriptable ''int'')"
| "subscript_key (JFloat r) k = Inl (not_subscriptable ''float'')"

text \<open>\<open>x[0]\<close>: the first element of a list or string; a JSON dict has no key \<open>0\<close>.\<close>

fun subscript_0 :: "json \<Rightarrow> json raising" where
  "subscript_0 (JArr []) = Inl ''list index out of range''"
| "subscript_0 (JArr (v # vs)) = Inr v"
| "subscript_0 (JStr []) = Inl ''string index out of range''"
| "subscript_0 (JStr (c # cs)) = Inr (JStr [c])"
| "subscript_0 (JObj kvs) = Inl ''0''"
| "subscript_0 JNull = Inl (not_subscriptable ''NoneType'')"
| "subscript_0 (JBool b) = Inl (not_subscriptable ''bool'')"
| "subscript_0 (JInt i) = Inl (not_subscriptable ''int'')"
| "subscript_0 (JFloat r) = Inl (not_subscriptable ''float'')"

subsection \<open>InferenceClient: \<open>process_page\<close> (lines 111-146)\<close>

record request =
  url :: string
  json_payload :: json
  headers :: "(string \<times> string) list"
  timeout :: nat

record response =
  status_code :: nat
  response_text :: string
  response_json :: "json raising"

text \<open>
  What one call of \<open>process_page\<close> sees of the outside: the PNG encoding of the page
  (\<open>page.save\<close> into the buffer, which may raise), base64, the HTTP call, and the two
  readings of \<open>time.time()\<close>.
\<close>

record 'img world =
  save_png :: "'img \<Rightarrow> bytes raising"
  b64encode :: "bytes \<Rightarrow> string"
  requests_post :: "request \<Rightarrow> response raising"
  time_start :: real
  time_end :: real

definition VLLM_URL :: string where
  "VLLM_URL = ''http://qwen-vlm:8000/v1/chat/completions''"

definition payload :: "string \<Rightarrow> json" where
  "payload img_b64 =
     JObj [
       (''model'', JStr ''Qwen/Qwen2.5-VL-3B-Instruct-AWQ''),
       (''messages'', JArr [
          JObj [
            (''role'', JStr ''user''),
            (''content'', JArr [
               JObj [(''type'', JStr ''text''),
                     (''text'', JStr ''Please extract all text from this image.'')],
               JObj [(''type'', JStr ''image_url''),
                     (''image_url'', JObj [(''url'', JStr (''data:image/png;base64,'' @ img_b64))])]
             ])
          ]
        ]),
       (''max_tokens'', JInt 4096),
       (''temperature'', JFloat 0)
     ]"

text \<open>The arguments of \<open>requests.post\<close> at line 138.\<close>

definition post_request :: "string \<Rightarrow> request" where
  "post_request img_b64 =
     \<lparr>url = VLLM_URL, json_payload = payload img_b64,
      headers = [(''Content-Type'', ''application/json'')], timeout = 60\<rparr>"

text \<open>Lines 138-144: the \<open>try\<close> block around the POST and the reading of its answer.\<close>

definition response_to_text :: "response raising \<Rightarrow> json" where
  "response_to_text posted =
     (case posted of
        Inl e \<Rightarrow> JStr (''Exception: '' @ e)
      | Inr response \<Rightarrow>
          if status_code response = 200 then
            (case and_then (response_json response) (\<lambda>body.
                  and_then (subscript_key body ''choices'') (\<lambda>choices.
                  and_then (subscript_0 choices) (\<lambda>choice.
                  and_then (subscript_key choice ''message'') (\<lambda>message.
                  subscript_key message ''content''))))
             of Inl e \<Rightarrow> JStr (''Exception: '' @ e)
              | Inr content \<Rightarrow> content)
          else JStr (''Error: '' @ str_nat (status_code response) @ '' - ''
                      @ response_text response))"

text \<open>
  The result is the list of HTTP requests the call sent, and either the exception that
  left \<open>process_page\<close> or the tuple it returned. The text of a page is whatever JSON
  value the backend put into \<open>content\<close>, or a Python string.
\<close>

definition process_page ::
  "'img world \<Rightarrow> string \<Rightarrow> 'img \<Rightarrow> nat
     \<Rightarrow> request list \<times> (string \<times> nat \<times> json \<times> real \<times> string \<times> 'img) raising" where
  "process_page w file_name page page_idx =
     (let page_start_time = time_start w in
      case save_png w page of
        Inl e \<Rightarrow> ([], Inl e)
      | Inr img_bytes \<Rightarrow>
          let img_b64 = b64encode w img_bytes;
              req = post_request img_b64;
              text = response_to_text (requests_post w req);
              page_time = time_end w - page_start_time
          in ([req], Inr (file_name, page_idx, text, page_time, img_b64, page)))"

subsection \<open>Session state and what the user sees\<close>

text \<open>
  One entry of \<open>file_results[file_name]\<close>: the dictionary with the keys \<open>page\<close>,
  \<open>text\<close>, \<open>page_time\<close>, \<open>img_b64\<close> and \<open>image\<close>.
\<close>

record 'img page_result =
  result_page :: nat
  result_text :: json
  result_page_time :: real
  result_img_b64 :: string
  result_image :: 'img

record debug_entry =
  pdf_size :: nat
  page_count :: nat

record 'img session_state =
  file_results :: "(string \<times> 'img page_result list) list"
  file_times :: "(string \<times> real) list"
  debug_info :: "(string \<times> debug_entry) list"
  processed :: bool
  uploaded_files :: "(string \<times> bytes) list"

text \<open>Lines 89-99: the session state of a fresh session.\<close>

definition initial_state :: "'img session_state" where
  "initial_state =
     \<lparr>file_results = [], file_times = [], debug_info = [], processed = False,
      uploaded_files = []\<rparr>"

text \<open>The calls that show something: \<open>st.info\<close>, \<open>st.error\<close>, the progress bar and its text.\<close>

datatype ui_event =
    Info string
  | Error string
  | ProgressBar real
  | ProgressText string

text \<open>
  What a run sees of the outside: \<open>convert_from_bytes\<close> on a document's bytes, the
  reading of \<open>time.time()\<close> at the start of the \<open>i\<close>-th stored document (line 171), and
  the world of the task submitted at position \<open>j\<close> of \<open>all_pages\<close>.
\<close>

record 'img env =
  convert_from_bytes :: "bytes \<Rightarrow> 'img list raising"
  file_clock :: "nat \<Rightarrow> real"
  world_of :: "nat \<Rightarrow> 'img world"

type_synonym 'img work_item = "string \<times> 'img \<times> nat"

subsection \<open>PageRasterizer loop (lines 169-183)\<close>

definition rasterize_file ::
  "'img env \<Rightarrow> nat \<Rightarrow> string \<times> bytes
     \<Rightarrow> 'img work_item list \<times> nat \<times> 'img session_state \<times> ui_event list
     \<Rightarrow> 'img work_item list \<times> nat \<times> 'img session_state \<times> ui_event list" where
  "rasterize_file ev i uploaded_file acc =
     (case acc of (all_pages, total_pages, s, shown) \<Rightarrow>
      let file_name = fst uploaded_file;
          data = snd uploaded_file;
          file_start_time = file_clock ev i
      in case convert_from_bytes ev data of
           Inr pages \<Rightarrow>
             (all_pages @ map (\<lambda>(i, page). (file_name, page, i + 1)) (enumerate 0 pages),
              total_pages + length pages,
              s\<lparr>file_times := AList.update file_name file_start_time (file_times s),
                file_results := AList.update file_name [] (file_results s),
                debug_info := AList.update file_name
                   \<lparr>pdf_size = length data, page_count = length pages\<rparr> (debug_info s)\<rparr>,
              shown)
         | Inl e \<Rightarrow>
             (all_pages, total_pages, s,
              shown @ [Error (''Failed to process '' @ file_name @ '': '' @ e)]))"

fun rasterize_loop ::
  "'img env \<Rightarrow> nat \<Rightarrow> (string \<times> bytes) list
     \<Rightarrow> 'img work_item list \<times> nat \<times> 'img session_state \<times> ui_event list
     \<Rightarrow> 'img work_item list \<times> nat \<times> 'img session_state \<times> ui_event list" where
  "rasterize_loop ev i [] acc = acc"
| "rasterize_loop ev i (uploaded_file # rest) acc =
     rasterize_loop ev (Suc i) rest (rasterize_file ev i uploaded_file acc)"

subsection \<open>PagePool collection loop (lines 189-206)\<close>

text \<open>
  \<open>as_completed\<close> hands over every submitted future once, in the order of completion:
  a schedule is a list of positions of \<open>all_pages\<close>, and a completion order of \<open>n\<close>
  tasks is a permutation of \<open>0..<n\<close>. A position outside \<open>all_pages\<close> names no future
  and is skipped.
\<close>

definition completion_order :: "nat \<Rightarrow> nat list \<Rightarrow> bool" where
  "completion_order n sched \<longleftrightarrow> mset sched = mset [0..<n]"

definition collect_future ::
  "'img env \<Rightarrow> 'img work_item list \<Rightarrow> nat \<Rightarrow> nat
     \<Rightarrow> nat \<times> 'img session_state \<times> ui_event list
     \<Rightarrow> nat \<times> 'img session_state \<times> ui_event list" where
  "collect_future ev all_pages total_pages j acc =
     (case acc of (processed_pages, s, shown) \<Rightarrow>
      if j < length all_pages then
        (case all_pages ! j of (file_name, page, page_idx) \<Rightarrow>
         let failed = (\<lambda>name idx e.
               Error (''Failed to process '' @ name @ '' - Page '' @ str_nat idx @ '': '' @ e))
         in case snd (process_page (world_of ev j) file_name page page_idx) of
              Inl e \<Rightarrow> (processed_pages, s, shown @ [failed file_name page_idx e])
            | Inr (file_name, page_idx, text, page_time, img_b64, page) \<Rightarrow>
                let processed_pages = processed_pages + 1 in
                if total_pages = 0 then
                  (processed_pages, s, shown @ [failed file_name page_idx ''division by zero''])
                else
                  let shown = shown @ [ProgressBar (real processed_pages / real total_pages),
                        ProgressText (''Processed '' @ str_nat processed_pages @ ''/''
                                      @ str_nat total_pages @ '' pages'')]
                  in case map_of (file_results s) file_name of
                       None \<Rightarrow>
                         (processed_pages, s, shown @ [failed file_name page_idx (repr_str file_name)])
                     | Some results \<Rightarrow>
                         (processed_pages,
                          s\<lparr>file_results := AList.update file_name
                              (results @ [\<lparr>result_page = page_idx, result_text = text,
                                           result_page_time = page_time,
                                           result_img_b64 = img_b64, result_image = page\<rparr>])
                              (file_results s)\<rparr>,
                          shown))
      else acc)"

fun collect_loop ::
  "'img env \<Rightarrow> 'img work_item list \<Rightarrow> nat \<Rightarrow> nat list
     \<Rightarrow> nat \<times> 'img session_state \<times> ui_event list
     \<Rightarrow> nat \<times> 'img session_state \<times> ui_event list" where
  "collect_loop ev all_pages total_pages [] acc = acc"
| "collect_loop ev all_pages total_pages (j # sched) acc =
     collect_loop ev all_pages total_pages sched
       (collect_future ev all_pages total_pages j acc)"

subsection \<open>ResultAggregator sort (lines 208-210)\<close>

definition sort_results ::
  "(string \<times> 'img page_result list) list \<Rightarrow> (string \<times> 'img page_result list) list" where
  "sort_results results = map (\<lambda>(file_name, rs). (file_name, sort_key result_page rs)) results"

subsection \<open>RunCoordinator: one execution of lines 148-214\<close>

text \<open>
  \<open>uploaded\<close> is what the file uploader holds when the script runs (name and content of
  each file), \<open>workers\<close> the value of \<open>MAX_WORKERS\<close>, \<open>sched\<close> the completion order of
  the tasks. The result is the session state afterwards and what was shown.
\<close>

definition coordinator ::
  "'img env \<Rightarrow> int \<Rightarrow> (string \<times> bytes) list \<Rightarrow> nat list \<Rightarrow> 'img session_state
     \<Rightarrow> 'img session_state \<times> ui_event list" where
  "coordinator ev workers uploaded sched s =
     (if uploaded \<noteq> [] \<and> \<not> processed s then
        let shown = [Info ''Processing PDFs in parallel...'', ProgressBar 0];
            uploaded_file_names = map fst uploaded;
            s = (if uploaded_file_names \<noteq> map fst (uploaded_files s)
                 then s\<lparr>uploaded_files := uploaded\<rparr> else s);
            s = s\<lparr>file_results := [], file_times := [], debug_info := []\<rparr>
        in case rasterize_loop ev 0 (uploaded_files s) ([], 0, s, shown) of
             (all_pages, total_pages, s, shown) \<Rightarrow>
               (case (if all_pages \<noteq> [] then
                        let shown = shown @ [ProgressText (''Processing '' @ str_nat total_pages
                                    @ '' pages with '' @ str_int workers
                                    @ '' concurrent requests...'')]
                        in case collect_loop ev all_pages total_pages sched (0, s, shown) of
                             (processed_pages, s, shown) \<Rightarrow>
                               (s\<lparr>file_results := sort_results (file_results s),
                                  processed := True\<rparr>, shown)
                      else (s, shown))
                of (s, shown) \<Rightarrow> (s, shown @ [ProgressText ''Processing complete!'']))
      else (s, []))"

section \<open>Notions of the specification\<close>

subsection \<open>Capacity\<close>

text \<open>
  Every NVML call of the block returned, and device 0 reported \<open>free\<close> bytes.
\<close>

definition telemetry_available :: "nvml \<Rightarrow> 64 word \<Rightarrow> bool" where
  "telemetry_available nv free \<longleftrightarrow>
     nvmlInit nv = Inr () \<and> (\<exists>n. nvmlDeviceGetCount nv = Inr n \<and> n > 0)
     \<and> nvmlDeviceGetHandleByIndex nv = Inr () \<and> nvmlDeviceGetMemoryInfo nv = Inr free
     \<and> nvmlShutdown nv = Inr ()"

text \<open>
  The device count was read and is zero.
\<close>

definition no_device :: "nvml \<Rightarrow> bool" where
  "no_device nv \<longleftrightarrow> nvmlInit nv = Inr () \<and> nvmlDeviceGetCount nv = Inr 0"

text \<open>
  Some NVML call that the block reaches raises.
\<close>

definition telemetry_raises :: "nvml \<Rightarrow> bool" where
  "telemetry_raises nv \<longleftrightarrow>
     isl (nvmlInit nv) \<or> isl (nvmlDeviceGetCount nv)
     \<or> (nvmlDeviceGetCount nv \<noteq> Inr 0
          \<and> (isl (nvmlDeviceGetHandleByIndex nv) \<or> isl (nvmlDeviceGetMemoryInfo nv)))
     \<or> isl (nvmlShutdown nv)"

text \<open>
  The estimate in the words of the specification: \<open>min(4, max(1, floor(free_GB / 3)))\<close>.
\<close>

definition spec_estimate :: "64 word \<Rightarrow> int" where
  "spec_estimate free =
     (let free_GB = real (unat free) / 1024 ^ 3 in min 4 (max 1 \<lfloor>free_GB / 3\<rfloor>))"

subsection \<open>Inference backend\<close>

text \<open>
  The content field of the first choice of a response body, in the words of the
  specification: \<open>choices[0].message.content\<close> of a JSON object.
\<close>

fun first_choice_content :: "json \<Rightarrow> json option" where
  "first_choice_content (JObj body) =
     (case map_of body ''choices'' of
        Some (JArr (JObj choice # rest)) \<Rightarrow>
          (case map_of choice ''message'' of
             Some (JObj message) \<Rightarrow> map_of message ''content''
           | _ \<Rightarrow> None)
      | _ \<Rightarrow> None)"
| "first_choice_content _ = None"

text \<open>
  The chain of subscripts of line 140, by which the code reads that field.
\<close>

definition content_chain :: "json \<Rightarrow> json raising" where
  "content_chain body =
                  and_then (subscript_key body ''choices'') (\<lambda>choices.
                  and_then (subscript_0 choices) (\<lambda>choice.
                  and_then (subscript_key choice ''message'') (\<lambda>message.
                  subscript_key message ''content'')))"

text \<open>
  The request body of section 6 of the specification.
\<close>

definition spec_envelope :: "string \<Rightarrow> string \<Rightarrow> string \<Rightarrow> json" where
  "spec_envelope model instruction png_b64 =
     JObj [(''model'', JStr model),
           (''messages'', JArr [JObj [(''role'', JStr ''user''),
              (''content'', JArr [
                 JObj [(''type'', JStr ''text''), (''text'', JStr instruction)],
                 JObj [(''type'', JStr ''image_url''),
                       (''image_url'', JObj [(''url'', JStr (''data:image/png;base64,'' @ png_b64))])]])]]),
           (''max_tokens'', JInt 4096),
           (''temperature'', JFloat 0.0)]"

subsection \<open>Documents and work items of a run\<close>

text \<open>
  The documents a run rasterizes: the upload when its names differ from the stored
  ones, else the stored documents (lines 156-160).
\<close>

definition stored_files :: "(string \<times> bytes) list \<Rightarrow> 'img session_state \<Rightarrow> (string \<times> bytes) list" where
  "stored_files uploaded s =
     (if map fst uploaded \<noteq> map fst (uploaded_files s) then uploaded else uploaded_files s)"

text \<open>
  A document rasterizes when \<open>convert_from_bytes\<close> returns; the names of those
  that do, in upload order.
\<close>

definition rasterizes :: "'img env \<Rightarrow> string \<times> bytes \<Rightarrow> bool" where
  "rasterizes ev f \<longleftrightarrow> \<not> isl (convert_from_bytes ev (snd f))"

definition rasterized_names :: "'img env \<Rightarrow> (string \<times> bytes) list \<Rightarrow> string list" where
  "rasterized_names ev files = map fst (filter (rasterizes ev) files)"

text \<open>
  The work items of one document, pages numbered from 1, and of all documents: the
  batch \<open>all_pages\<close> of the run.
\<close>

definition file_items :: "'img env \<Rightarrow> string \<times> bytes \<Rightarrow> 'img work_item list" where
  "file_items ev f =
     (case convert_from_bytes ev (snd f) of
        Inl e \<Rightarrow> []
      | Inr pages \<Rightarrow> map (\<lambda>(i, page). (fst f, page, i + 1)) (enumerate 0 pages))"

definition work_items :: "'img env \<Rightarrow> (string \<times> bytes) list \<Rightarrow> 'img work_item list" where
  "work_items ev files = concat (map (file_items ev) files)"

definition run_items ::
  "'img env \<Rightarrow> (string \<times> bytes) list \<Rightarrow> 'img session_state \<Rightarrow> 'img work_item list" where
  "run_items ev uploaded s = work_items ev (stored_files uploaded s)"

text \<open>
  The page index of the work item at a position of the batch.
\<close>

definition page_index_at :: "'img work_item list \<Rightarrow> nat \<Rightarrow> nat" where
  "page_index_at all_pages j = snd (snd (all_pages ! j))"

text \<open>
  The page indices a document submits: \<open>1..page_count\<close>, or none if it fails to rasterize.
\<close>

definition doc_pages :: "'img env \<Rightarrow> string \<times> bytes \<Rightarrow> nat list" where
  "doc_pages ev f =
     (case convert_from_bytes ev (snd f) of
        Inl e \<Rightarrow> []
      | Inr pages \<Rightarrow> [1..<Suc (length pages)])"

text \<open>
  The notice and the debug entry of a document.
\<close>

definition rasterization_notice :: "'img env \<Rightarrow> string \<times> bytes \<Rightarrow> ui_event" where
  "rasterization_notice ev f =
     Error (''Failed to process '' @ fst f @ '': '' @ projl (convert_from_bytes ev (snd f)))"

definition debug_of :: "'img env \<Rightarrow> string \<times> bytes \<Rightarrow> string \<times> debug_entry" where
  "debug_of ev f =
     (fst f, \<lparr>pdf_size = length (snd f),
              page_count = length (projr (convert_from_bytes ev (snd f)))\<rparr>)"

subsection \<open>The phases of a run\<close>

text \<open>
  The session state when the rasterization loop starts (lines 156-167), after one
  document that rasterized, and when the loop ends; what is shown before the loop and
  before the dispatch.
\<close>

definition start_state :: "(string \<times> bytes) list \<Rightarrow> 'img session_state \<Rightarrow> 'img session_state" where
  "start_state uploaded s =
     s\<lparr>uploaded_files := stored_files uploaded s, file_results := [], file_times := [],
       debug_info := []\<rparr>"

definition start_shown :: "ui_event list" where
  "start_shown = [Info ''Processing PDFs in parallel...'', ProgressBar 0]"

definition rasterized_state :: "'img env \<Rightarrow> nat \<Rightarrow> string \<times> bytes \<Rightarrow> 'img session_state \<Rightarrow> 'img session_state" where
  "rasterized_state ev i f s =
      s\<lparr>file_times := AList.update (fst f) (file_clock ev i) (file_times s),
        file_results := AList.update (fst f) [] (file_results s),
        debug_info := AList.update (fst f) (snd (debug_of ev f)) (debug_info s)\<rparr>"

definition after_rasterize ::
  "'img env \<Rightarrow> (string \<times> bytes) list \<Rightarrow> 'img session_state \<Rightarrow> 'img session_state" where
  "after_rasterize ev uploaded s =
     fst (snd (snd (rasterize_loop ev 0 (stored_files uploaded s)
        ([], 0, start_state uploaded s, start_shown))))"

definition dispatch_text :: "nat \<Rightarrow> int \<Rightarrow> ui_event" where
  "dispatch_text total_pages workers =
     ProgressText (''Processing '' @ str_nat total_pages @ '' pages with '' @ str_int workers
                   @ '' concurrent requests...'')"

text \<open>
  The state and the shown events that the two loops return.
\<close>

abbreviation "rstate ev i files acc \<equiv> fst (snd (snd (rasterize_loop ev i files acc)))"

abbreviation "cstate ev ap tp sched acc \<equiv> fst (snd (collect_loop ev ap tp sched acc))"
abbreviation "cshown ev ap tp sched acc \<equiv> snd (snd (collect_loop ev ap tp sched acc))"

subsection \<open>Page tasks and their results\<close>

text \<open>
  The page result that the task at position \<open>j\<close> yields when its call returns;
  the call returns unless it raises.
\<close>

definition task_result :: "'img env \<Rightarrow> 'img work_item list \<Rightarrow> nat \<Rightarrow> 'img page_result option" where
  "task_result ev all_pages j =
     (case all_pages ! j of (file_name, page, page_idx) \<Rightarrow>
        (case snd (process_page (world_of ev j) file_name page page_idx) of
           Inl e \<Rightarrow> None
         | Inr (file_name, page_idx, text, page_time, img_b64, page) \<Rightarrow>
             Some \<lparr>result_page = page_idx, result_text = text, result_page_time = page_time,
                   result_img_b64 = img_b64, result_image = page\<rparr>))"

definition returns :: "'img env \<Rightarrow> 'img work_item list \<Rightarrow> nat \<Rightarrow> bool" where
  "returns ev all_pages j \<longleftrightarrow>
     (case all_pages ! j of (file_name, page, page_idx) \<Rightarrow>
        \<not> isl (snd (process_page (world_of ev j) file_name page page_idx)))"

text \<open>
  The page results collected for one document name, in the order of collection.
\<close>

definition collected ::
  "'img env \<Rightarrow> 'img work_item list \<Rightarrow> string \<Rightarrow> nat list \<Rightarrow> 'img page_result list" where
  "collected ev all_pages nm sched =
     List.map_filter
       (\<lambda>j. if j < length all_pages \<and> fst (all_pages ! j) = nm
            then task_result ev all_pages j else None) sched"

text \<open>
  Every work item names a group of \<open>file_results\<close>.
\<close>

definition keys_cover :: "'img work_item list \<Rightarrow> 'img session_state \<Rightarrow> bool" where
  "keys_cover ap s \<longleftrightarrow> (\<forall>j < length ap. fst (ap ! j) \<in> set (map fst (file_results s)))"

text \<open>
  The number of page results of a session, and the number of errors shown.
\<close>

definition total_results :: "(string \<times> 'img page_result list) list \<Rightarrow> nat" where
  "total_results results = sum_list (map (\<lambda>kv. length (snd kv)) results)"

fun is_error :: "ui_event \<Rightarrow> bool" where
  "is_error (Error msg) = True"
| "is_error _ = False"

definition error_count :: "ui_event list \<Rightarrow> nat" where
  "error_count shown = length (filter is_error shown)"

subsection \<open>Concrete machines, backends and runs\<close>

text \<open>
  A machine with one device and \<open>free\<close> bytes of free memory, every call returning.
\<close>

definition gpu :: "64 word \<Rightarrow> nvml" where
  "gpu free =
     \<lparr>nvmlInit = Inr (), nvmlDeviceGetCount = Inr 1, nvmlDeviceGetHandleByIndex = Inr (),
      nvmlDeviceGetMemoryInfo = Inr free, nvmlShutdown = Inr ()\<rparr>"

text \<open>
  A well-formed answer, with status 200 and with status 201, an answer 200 without
  choices and an answer 500; a world whose backend gives the answer \<open>r\<close> to every
  request: its pages are numbers, and page 13 cannot be written as PNG.
\<close>

definition hello_body :: json where
  "hello_body = JObj [(''choices'', JArr [JObj [(''message'', JObj [(''content'', JStr ''hello'')])]])]"

definition ok_200 :: response where
  "ok_200 = \<lparr>status_code = 200, response_text = ''ok'', response_json = Inr hello_body\<rparr>"

definition created_201 :: response where
  "created_201 = \<lparr>status_code = 201, response_text = ''created'', response_json = Inr hello_body\<rparr>"

definition no_choices_200 :: response where
  "no_choices_200 = \<lparr>status_code = 200, response_text = ''{}'', response_json = Inr (JObj [])\<rparr>"

definition error_500 :: response where
  "error_500 =
     \<lparr>status_code = 500, response_text = ''Internal Server Error'',
      response_json = Inl ''Expecting value: line 1 column 1 (char 0)''\<rparr>"

definition answering :: "response raising \<Rightarrow> nat world" where
  "answering r =
     \<lparr>save_png = (\<lambda>img. if img = 13 then Inl ''encoder error'' else Inr [word_of_nat img]),
      b64encode = map (\<lambda>b. if b = 7 then CHR ''H'' else CHR ''A''),
      requests_post = (\<lambda>req. r), time_start = 10, time_end = 12\<rparr>"

text \<open>
  A run whose rasterizer fails on empty content and otherwise gives one page per byte, the
  page being the byte's number, with a backend that answers every request well.
\<close>

definition demo_env :: "nat env" where
  "demo_env =
     \<lparr>convert_from_bytes = (\<lambda>data. if data = [] then Inl ''Unable to get page count.''
                                  else Inr (map unat data)),
      file_clock = (\<lambda>i. real i),
      world_of = (\<lambda>j. answering (Inr ok_200))\<rparr>"

text \<open>
  A fresh session, and uploads: one document of one page; another one; a document that
  does not rasterize; three documents of which the second does not rasterize and the first
  has a page that cannot be encoded, and the same without the second; two documents with
  one name, and two with one name of which the second does not rasterize. A completion
  order of five tasks.
\<close>

definition fresh :: "nat session_state" where
  "fresh = initial_state"

definition single_upload :: "(string \<times> bytes) list" where
  "single_upload = [(''a.pdf'', [7])]"

definition second_upload :: "(string \<times> bytes) list" where
  "second_upload = [(''b.pdf'', [8])]"

definition bad_upload :: "(string \<times> bytes) list" where
  "bad_upload = [(''bad.pdf'', [])]"

definition mixed_upload :: "(string \<times> bytes) list" where
  "mixed_upload = [(''a.pdf'', [7, 13, 9]), (''bad.pdf'', []), (''b.pdf'', [1, 2])]"

definition without_bad_upload :: "(string \<times> bytes) list" where
  "without_bad_upload = [(''a.pdf'', [7, 13, 9]), (''b.pdf'', [1, 2])]"

definition dup_upload :: "(string \<times> bytes) list" where
  "dup_upload = [(''a.pdf'', [7, 8, 9]), (''a.pdf'', [1, 2])]"

definition shared_name_upload :: "(string \<times> bytes) list" where
  "shared_name_upload = [(''a.pdf'', [7, 8]), (''a.pdf'', [])]"

definition mixed_order :: "nat list" where
  "mixed_order = [4, 2, 3, 0, 1]"

section \<open>Properties\<close>

subsection \<open>CapacityEstimator\<close>

lemma floor_free_gb: "\<lfloor>real n / 1024 ^ 3 / 3\<rfloor> = int (n div 3221225472)"
proof -
  have "real n / 1024 ^ 3 / 3 = real n / real 3221225472" by simp
  then show ?thesis by (simp only: floor_divide_of_nat_eq)
qed

text \<open>The three cases of the block are all there are.\<close>

lemma telemetry_cases:
  "(\<exists>free. telemetry_available nv free) \<or> no_device nv \<or> telemetry_raises nv"
  unfolding telemetry_available_def no_device_def telemetry_raises_def
  by (cases "nvmlInit nv"; cases "nvmlDeviceGetCount nv";
      cases "nvmlDeviceGetHandleByIndex nv"; cases "nvmlDeviceGetMemoryInfo nv";
      cases "nvmlShutdown nv") auto

text \<open>
  Claim C4. \<open>MAX_WORKERS\<close> is always an integer between 1 and 4. When the telemetry is
  available it is \<open>min(4, max(1, floor(free_GB / 3)))\<close>; when there is no device, or when
  any NVML call that is reached raises, it is exactly 2, and nothing is raised further.
\<close>

theorem MAX_WORKERS_bounds:
  "1 \<le> MAX_WORKERS nv \<and> MAX_WORKERS nv \<le> 4
   \<and> (telemetry_available nv free \<longrightarrow> MAX_WORKERS nv = spec_estimate free)
   \<and> (no_device nv \<longrightarrow> MAX_WORKERS nv = 2)
   \<and> (telemetry_raises nv \<longrightarrow> MAX_WORKERS nv = 2)"
proof -
  have range: "1 \<le> MAX_WORKERS nv \<and> MAX_WORKERS nv \<le> 4"
    by (simp add: MAX_WORKERS_def and_then_def Let_def split: sum.split)
  have avail: "MAX_WORKERS nv = spec_estimate free" if "telemetry_available nv free"
    using that
    by (auto simp: telemetry_available_def MAX_WORKERS_def and_then_def spec_estimate_def)
  have nodev: "MAX_WORKERS nv = 2" if "no_device nv"
    using that by (auto simp: no_device_def MAX_WORKERS_def and_then_def split: sum.split)
  have raises: "MAX_WORKERS nv = 2" if "telemetry_raises nv"
    using that
    by (auto simp: telemetry_raises_def MAX_WORKERS_def and_then_def isl_def split: sum.split)
  from range avail nodev raises show ?thesis by blast
qed

theorem MAX_WORKERS_bounds_witness:
  "telemetry_available (gpu 8589934592) 8589934592 \<and> MAX_WORKERS (gpu 8589934592) = 2
   \<and> spec_estimate 8589934592 = 2
   \<and> no_device ((gpu 0)\<lparr>nvmlDeviceGetCount := Inr 0\<rparr>)
   \<and> MAX_WORKERS ((gpu 0)\<lparr>nvmlDeviceGetCount := Inr 0\<rparr>) = 2
   \<and> telemetry_raises ((gpu 0)\<lparr>nvmlShutdown := Inl ''Uninitialized''\<rparr>)
   \<and> MAX_WORKERS ((gpu 0)\<lparr>nvmlShutdown := Inl ''Uninitialized''\<rparr>) = 2"
proof -
  have a: "telemetry_available (gpu 8589934592) 8589934592"
    by (simp add: telemetry_available_def gpu_def)
  have e: "spec_estimate 8589934592 = 2"
    by (simp add: spec_estimate_def floor_free_gb)
  have n: "no_device ((gpu 0)\<lparr>nvmlDeviceGetCount := Inr 0\<rparr>)"
    by (simp add: no_device_def gpu_def)
  have r: "telemetry_raises ((gpu 0)\<lparr>nvmlShutdown := Inl ''Uninitialized''\<rparr>)"
    by (simp add: telemetry_raises_def gpu_def)
  show ?thesis
    using a e n r MAX_WORKERS_bounds [of "gpu 8589934592" 8589934592]
      MAX_WORKERS_bounds [of "(gpu 0)\<lparr>nvmlDeviceGetCount := Inr 0\<rparr>" 0]
      MAX_WORKERS_bounds [of "(gpu 0)\<lparr>nvmlShutdown := Inl ''Uninitialized''\<rparr>" 0]
    by simp
qed

subsection \<open>InferenceClient\<close>

lemma subscript_key_Inr: "subscript_key x k = Inr v \<longleftrightarrow> (\<exists>kvs. x = JObj kvs \<and> map_of kvs k = Some v)"
  by (cases x) (auto split: option.splits)

lemma subscript_0_Inr: "subscript_0 x = Inr v \<longleftrightarrow> (\<exists>vs. x = JArr (v # vs)) \<or> (\<exists>c cs. x = JStr (c # cs) \<and> v = JStr [c])"
  by (cases x rule: subscript_0.cases) auto

lemma chain_Some: "first_choice_content body = Some c \<Longrightarrow> content_chain body = Inr c"
  by (cases body) (auto simp: content_chain_def and_then_def split: option.splits json.splits list.splits)

lemma chain_None: "first_choice_content body = None \<Longrightarrow> isl (content_chain body)"
  apply (cases body)
  apply (auto simp: content_chain_def and_then_def subscript_key_Inr subscript_0_Inr split: option.splits json.splits list.splits sum.splits)
  done

lemma process_page_returns:
  "save_png w page = Inr png \<Longrightarrow>
   process_page w file_name page page_idx =
     ([post_request (b64encode w png)],
      Inr (file_name, page_idx, response_to_text (requests_post w (post_request (b64encode w png))),
           time_end w - time_start w, b64encode w png, page))"
  by (simp add: process_page_def Let_def)

lemma process_page_raises:
  "save_png w page = Inl e \<Longrightarrow> process_page w file_name page page_idx = ([], Inl e)"
  by (simp add: process_page_def Let_def)


lemma response_to_text_200:
  "status_code resp = 200 \<Longrightarrow>
   response_to_text (Inr resp) =
     (case and_then (response_json resp) content_chain of
        Inl e \<Rightarrow> JStr (''Exception: '' @ e) | Inr content \<Rightarrow> content)"
  by (simp add: response_to_text_def content_chain_def [abs_def])

text \<open>
  Claim C3, amended. For every page whose PNG encoding succeeded, \<open>process_page\<close>
  returns (it does not raise) the page's text with the elapsed time \<open>time_end - time_start\<close>.
  With HTTP status 200 and a well-formed body the text is the content field of the first
  choice; with status 200 and a body that cannot be read that way it is the text
  \<open>Exception: ...\<close>; with any other status, other 2xx codes included, it is
  \<open>Error: <status> - <body>\<close>; when the POST itself raises it is \<open>Exception: ...\<close>.
\<close>

theorem process_page_text:
  assumes "save_png w page = Inr png"
  shows "\<exists>text.
     snd (process_page w file_name page page_idx) =
       Inr (file_name, page_idx, text, time_end w - time_start w, b64encode w png, page)
     \<and> (\<forall>resp body content.
           requests_post w (post_request (b64encode w png)) = Inr resp \<and> status_code resp = 200
           \<and> response_json resp = Inr body \<and> first_choice_content body = Some content
           \<longrightarrow> text = content)
     \<and> (\<forall>resp.
           requests_post w (post_request (b64encode w png)) = Inr resp \<and> status_code resp = 200
           \<and> (isl (response_json resp)
                \<or> (\<exists>body. response_json resp = Inr body \<and> first_choice_content body = None))
           \<longrightarrow> (\<exists>msg. text = JStr (''Exception: '' @ msg)))
     \<and> (\<forall>resp.
           requests_post w (post_request (b64encode w png)) = Inr resp \<and> status_code resp \<noteq> 200
           \<longrightarrow> text = JStr (''Error: '' @ str_nat (status_code resp) @ '' - '' @ response_text resp))
     \<and> (\<forall>e.
           requests_post w (post_request (b64encode w png)) = Inl e
           \<longrightarrow> text = JStr (''Exception: '' @ e))"
proof -
  let ?posted = "requests_post w (post_request (b64encode w png))"
  let ?text = "response_to_text ?posted"
  have ret: "snd (process_page w file_name page page_idx) =
       Inr (file_name, page_idx, ?text, time_end w - time_start w, b64encode w png, page)"
    using assms by (simp add: process_page_returns)
  have good: "?text = content"
    if "?posted = Inr resp" "status_code resp = 200" "response_json resp = Inr body"
       "first_choice_content body = Some content" for resp body content
    using that by (simp add: response_to_text_200 and_then_def chain_Some)
  have malformed: "\<exists>msg. ?text = JStr (''Exception: '' @ msg)"
    if p: "?posted = Inr resp" and st: "status_code resp = 200"
      and bad: "isl (response_json resp)
         \<or> (\<exists>body. response_json resp = Inr body \<and> first_choice_content body = None)" for resp
  proof -
    from bad have "isl (and_then (response_json resp) content_chain)"
      by (auto simp: and_then_def isl_def dest: chain_None)
    then obtain msg where "and_then (response_json resp) content_chain = Inl msg"
      by (auto simp: isl_def)
    with p st show ?thesis by (simp add: response_to_text_200)
  qed
  have status: "?text = JStr (''Error: '' @ str_nat (status_code resp) @ '' - '' @ response_text resp)"
    if "?posted = Inr resp" "status_code resp \<noteq> 200" for resp
    using that by (simp add: response_to_text_def)
  have fault: "?text = JStr (''Exception: '' @ e)" if "?posted = Inl e" for e
    using that by (simp add: response_to_text_def)
  show ?thesis
    apply (rule exI [of _ ?text])
    using ret good malformed status fault by blast
qed

lemma answering_simps:
  "save_png (answering r) img = (if img = 13 then Inl ''encoder error'' else Inr [word_of_nat img])"
  "requests_post (answering r) req = r"
  "time_start (answering r) = 10" "time_end (answering r) = 12"
  "b64encode (answering r) bs = map (\<lambda>b. if b = 7 then CHR ''H'' else CHR ''A'') bs"
  by (simp_all add: answering_def)

lemma first_choice_hello: "first_choice_content hello_body = Some (JStr ''hello'')"
  by (simp add: hello_body_def)

lemma page_text_at:
  assumes "\<exists>text. snd (process_page (answering r) ''a.pdf'' 7 1) =
             Inr (''a.pdf'', 1, text, time_end (answering r) - time_start (answering r),
                  b64encode (answering r) [7], 7) \<and> P text"
    and "\<And>text. P text \<Longrightarrow> text = t"
  shows "snd (process_page (answering r) ''a.pdf'' 7 1) = Inr (''a.pdf'', 1, t, 2, ''H'', 7)"
  using assms by (auto simp: answering_simps)

theorem process_page_text_witness:
  "save_png (answering (Inr ok_200)) 7 = Inr [7]
   \<and> snd (process_page (answering (Inr ok_200)) ''a.pdf'' 7 1)
       = Inr (''a.pdf'', 1, JStr ''hello'', 2, ''H'', 7)
   \<and> snd (process_page (answering (Inr no_choices_200)) ''a.pdf'' 7 1)
       = Inr (''a.pdf'', 1, JStr (''Exception: '' @ repr_str ''choices''), 2, ''H'', 7)
   \<and> snd (process_page (answering (Inr error_500)) ''a.pdf'' 7 1)
       = Inr (''a.pdf'', 1, JStr ''Error: 500 - Internal Server Error'', 2, ''H'', 7)
   \<and> snd (process_page (answering (Inl ''Read timed out.'')) ''a.pdf'' 7 1)
       = Inr (''a.pdf'', 1, JStr ''Exception: Read timed out.'', 2, ''H'', 7)"
proof -
  have s: "save_png (answering r) 7 = Inr [7]" for r
    by (simp add: answering_simps)
  have p: "requests_post (answering r) (post_request (b64encode (answering r) [7])) = r" for r
    by (simp add: answering_simps)
  have ok: "snd (process_page (answering (Inr ok_200)) ''a.pdf'' 7 1)
       = Inr (''a.pdf'', 1, JStr ''hello'', 2, ''H'', 7)"
    by (rule page_text_at [OF process_page_text [OF s]])
       (use p [of "Inr ok_200"] first_choice_hello in \<open>auto simp: ok_200_def\<close>)
  have err: "snd (process_page (answering (Inr error_500)) ''a.pdf'' 7 1)
       = Inr (''a.pdf'', 1, JStr ''Error: 500 - Internal Server Error'', 2, ''H'', 7)"
    by (rule page_text_at [OF process_page_text [OF s]])
       (use p [of "Inr error_500"] in
         \<open>auto simp: error_500_def str_nat.simps digit_char_def\<close>)
  have timeout: "snd (process_page (answering (Inl ''Read timed out.'')) ''a.pdf'' 7 1)
       = Inr (''a.pdf'', 1, JStr ''Exception: Read timed out.'', 2, ''H'', 7)"
    by (rule page_text_at [OF process_page_text [OF s]])
       (use p [of "Inl ''Read timed out.''"] in auto)
  have "first_choice_content (JObj []) = None" by simp
  with process_page_text [OF s [of "Inr no_choices_200"], of "''a.pdf''" 1]
    p [of "Inr no_choices_200"]
  obtain msg where "snd (process_page (answering (Inr no_choices_200)) ''a.pdf'' 7 1)
       = Inr (''a.pdf'', 1, JStr (''Exception: '' @ msg), 2, ''H'', 7)"
    by (auto simp: no_choices_200_def answering_simps)
  moreover have "snd (process_page (answering (Inr no_choices_200)) ''a.pdf'' 7 1)
       = Inr (''a.pdf'', 1, JStr (''Exception: '' @ repr_str ''choices''), 2, ''H'', 7)"
    by (simp add: process_page_returns s answering_simps response_to_text_def no_choices_200_def
        and_then_def)
  ultimately show ?thesis using s [of "Inr ok_200"] ok err timeout by simp
qed

text \<open>
  Claim C3 as stated fails for successful statuses other than 200: an answer 201 with a
  well-formed body gives the error text, not the content field.
\<close>

theorem status_201_counterexample:
  "save_png (answering (Inr created_201)) 7 = Inr [7]
   \<and> requests_post (answering (Inr created_201)) (post_request ''H'') = Inr created_201
   \<and> 200 \<le> status_code created_201 \<and> status_code created_201 < 300
   \<and> response_json created_201 = Inr hello_body
   \<and> first_choice_content hello_body = Some (JStr ''hello'')
   \<and> snd (process_page (answering (Inr created_201)) ''a.pdf'' 7 1)
       = Inr (''a.pdf'', 1, JStr ''Error: 201 - created'', 2, ''H'', 7)"
  by (simp add: process_page_def answering_def created_201_def hello_body_def
      response_to_text_def str_nat.simps digit_char_def Let_def)

text \<open>
  Claim C8. A page whose PNG encoding succeeded sends exactly one POST to the backend URL,
  with the JSON body of the specification (one user message holding the fixed instruction
  and the base64 PNG as an inline data URL, \<open>max_tokens\<close> 4096, \<open>temperature\<close> 0.0)
  and a timeout of 60 seconds. A page whose encoding raises sends nothing.
\<close>

theorem process_page_request:
  "(save_png w page = Inr png \<longrightarrow>
      fst (process_page w file_name page page_idx) =
        [\<lparr>url = VLLM_URL,
          json_payload = spec_envelope ''Qwen/Qwen2.5-VL-3B-Instruct-AWQ''
             ''Please extract all text from this image.'' (b64encode w png),
          headers = [(''Content-Type'', ''application/json'')],
          timeout = 60\<rparr>])
   \<and> (save_png w page = Inl e \<longrightarrow> fst (process_page w file_name page page_idx) = [])"
  by (simp add: process_page_returns process_page_raises post_request_def payload_def
      spec_envelope_def)

theorem process_page_request_witness:
  "save_png (answering (Inr ok_200)) 7 = Inr [7]
   \<and> save_png (answering (Inr ok_200)) 13 = Inl ''encoder error''
   \<and> fst (process_page (answering (Inr ok_200)) ''a.pdf'' 7 1) =
        [\<lparr>url = VLLM_URL,
          json_payload = spec_envelope ''Qwen/Qwen2.5-VL-3B-Instruct-AWQ''
             ''Please extract all text from this image.'' ''H'',
          headers = [(''Content-Type'', ''application/json'')],
          timeout = 60\<rparr>]
   \<and> fst (process_page (answering (Inr ok_200)) ''a.pdf'' 13 1) = []"
  using process_page_request [of "answering (Inr ok_200)" 7 "[7]" "''a.pdf''" 1 "''encoder error''"]
    process_page_request [of "answering (Inr ok_200)" 13 "[7]" "''a.pdf''" 1 "''encoder error''"]
  by (simp add: answering_simps)

subsection \<open>The rasterization loop\<close>

text \<open>
  What the loop of lines 169-183 leaves behind: the work items and their number, the
  notices of the documents that failed, and the three dictionaries.
\<close>

lemma rasterized_state_simps [simp]:
  "file_times (rasterized_state ev i f s) = AList.update (fst f) (file_clock ev i) (file_times s)"
  "file_results (rasterized_state ev i f s) = AList.update (fst f) [] (file_results s)"
  "debug_info (rasterized_state ev i f s) = AList.update (fst f) (snd (debug_of ev f)) (debug_info s)"
  "processed (rasterized_state ev i f s) = processed s"
  "uploaded_files (rasterized_state ev i f s) = uploaded_files s"
  by (simp_all add: rasterized_state_def)

lemma rasterize_file_ok:
  "rasterizes ev f \<Longrightarrow>
   rasterize_file ev i f (ap, tp, s, sh) =
     (ap @ file_items ev f, tp + length (file_items ev f), rasterized_state ev i f s, sh)"
  by (cases "convert_from_bytes ev (snd f)")
     (simp_all add: rasterizes_def rasterize_file_def file_items_def debug_of_def Let_def
        rasterized_state_def)

lemma rasterize_file_fails:
  "\<not> rasterizes ev f \<Longrightarrow>
   rasterize_file ev i f (ap, tp, s, sh) = (ap, tp, s, sh @ [rasterization_notice ev f])"
  by (cases "convert_from_bytes ev (snd f)")
     (simp_all add: rasterizes_def rasterize_file_def rasterization_notice_def Let_def)

lemma file_items_fails: "\<not> rasterizes ev f \<Longrightarrow> file_items ev f = []"
  by (cases "convert_from_bytes ev (snd f)") (simp_all add: rasterizes_def file_items_def)

lemma rasterized_names_simps [simp]:
  "rasterized_names ev [] = []"
  "rasterized_names ev (f # files) =
     (if rasterizes ev f then fst f # rasterized_names ev files else rasterized_names ev files)"
  by (simp_all add: rasterized_names_def)

lemma rasterize_loop_pages:
  "fst (rasterize_loop ev i files (ap, tp, s, sh)) = ap @ work_items ev files"
proof (induction files arbitrary: i ap tp s sh)
  case Nil
  then show ?case by (simp add: work_items_def)
next
  case (Cons f files)
  show ?case
  proof (cases "rasterizes ev f")
    case True
    then show ?thesis using Cons.IH by (simp add: rasterize_file_ok work_items_def)
  next
    case False
    then show ?thesis using Cons.IH
      by (simp add: rasterize_file_fails work_items_def file_items_fails)
  qed
qed

lemma rasterize_loop_total:
  "fst (snd (rasterize_loop ev i files (ap, tp, s, sh))) = tp + length (work_items ev files)"
proof (induction files arbitrary: i ap tp s sh)
  case Nil
  then show ?case by (simp add: work_items_def)
next
  case (Cons f files)
  show ?case
  proof (cases "rasterizes ev f")
    case True
    then show ?thesis using Cons.IH by (simp add: rasterize_file_ok work_items_def)
  next
    case False
    then show ?thesis using Cons.IH
      by (simp add: rasterize_file_fails work_items_def file_items_fails)
  qed
qed

lemma rasterize_loop_shown:
  "snd (snd (snd (rasterize_loop ev i files (ap, tp, s, sh)))) =
     sh @ map (rasterization_notice ev) (filter (\<lambda>f. \<not> rasterizes ev f) files)"
proof (induction files arbitrary: i ap tp s sh)
  case Nil
  then show ?case by simp
next
  case (Cons f files)
  show ?case
  proof (cases "rasterizes ev f")
    case True
    then show ?thesis using Cons.IH by (simp add: rasterize_file_ok)
  next
    case False
    then show ?thesis using Cons.IH by (simp add: rasterize_file_fails)
  qed
qed

lemma rasterize_loop_flags:
  "processed (rstate ev i files (ap, tp, s, sh)) = processed s \<and>
   uploaded_files (rstate ev i files (ap, tp, s, sh)) = uploaded_files s"
proof (induction files arbitrary: i ap tp s sh)
  case Nil
  then show ?case by simp
next
  case (Cons f files)
  show ?case
  proof (cases "rasterizes ev f")
    case True
    then show ?thesis using Cons.IH by (simp add: rasterize_file_ok)
  next
    case False
    then show ?thesis using Cons.IH by (simp add: rasterize_file_fails)
  qed
qed

lemma rasterize_loop_results:
  "map_of (file_results (rstate ev i files (ap, tp, s, sh))) nm =
     (if nm \<in> set (rasterized_names ev files) then Some []
      else map_of (file_results s) nm)"
proof (induction files arbitrary: i ap tp s sh)
  case Nil
  then show ?case by simp
next
  case (Cons f files)
  show ?case
  proof (cases "rasterizes ev f")
    case True
    then show ?thesis using Cons.IH
      by (simp add: rasterize_file_ok update_conv')
  next
    case False
    then show ?thesis using Cons.IH by (simp add: rasterize_file_fails)
  qed
qed

lemma rasterize_loop_keys:
  "fst ` set (file_results (rstate ev i files (ap, tp, s, sh))) =
     fst ` set (file_results s) \<union> set (rasterized_names ev files)"
proof (induction files arbitrary: i ap tp s sh)
  case Nil
  then show ?case by simp
next
  case (Cons f files)
  show ?case
  proof (cases "rasterizes ev f")
    case True
    then show ?thesis using Cons.IH
      by (auto simp: rasterize_file_ok dom_update)
  next
    case False
    then show ?thesis using Cons.IH by (simp add: rasterize_file_fails)
  qed
qed

lemma rasterize_loop_distinct:
  "distinct (map fst (file_results s)) \<Longrightarrow>
   distinct (map fst (file_results (rstate ev i files (ap, tp, s, sh))))"
proof (induction files arbitrary: i ap tp s sh)
  case Nil
  then show ?case by simp
next
  case (Cons f files)
  show ?case
  proof (cases "rasterizes ev f")
    case True
    then show ?thesis using Cons.IH Cons.prems
      by (simp add: rasterize_file_ok distinct_update)
  next
    case False
    then show ?thesis using Cons.IH Cons.prems by (simp add: rasterize_file_fails)
  qed
qed

lemma set_update_subset: "set (AList.update k v al) \<subseteq> insert (k, v) (set al)"
  by (induction al) auto

lemma rasterize_loop_empty:
  "\<forall>kv \<in> set (file_results s). snd kv = [] \<Longrightarrow>
   \<forall>kv \<in> set (file_results (rstate ev i files (ap, tp, s, sh))). snd kv = []"
proof (induction files arbitrary: i ap tp s sh)
  case Nil
  then show ?case by simp
next
  case (Cons f files)
  show ?case
  proof (cases "rasterizes ev f")
    case True
    have "\<forall>kv \<in> set (file_results (rasterized_state ev i f s)). snd kv = []"
      using Cons.prems set_update_subset [of "fst f" "[]" "file_results s"] by auto
    from Cons.IH [OF this] show ?thesis using True
      by (simp add: rasterize_file_ok)
  next
    case False
    then show ?thesis using Cons.IH [OF Cons.prems] by (simp add: rasterize_file_fails)
  qed
qed

lemma rasterize_loop_times:
  "nm \<notin> set (rasterized_names ev files) \<Longrightarrow>
   map_of (file_times (rstate ev i files (ap, tp, s, sh))) nm = map_of (file_times s) nm"
proof (induction files arbitrary: i ap tp s sh)
  case Nil
  then show ?case by simp
next
  case (Cons f files)
  from Cons.prems have rest: "nm \<notin> set (rasterized_names ev files)"
    by (simp split: if_splits)
  show ?case
  proof (cases "rasterizes ev f")
    case True
    with Cons.prems have "nm \<noteq> fst f" by simp
    then show ?thesis using True Cons.IH [OF rest]
      by (simp add: rasterize_file_ok update_conv')
  next
    case False
    then show ?thesis using Cons.IH [OF rest] by (simp add: rasterize_file_fails)
  qed
qed

lemma fst_debug_of [simp]: "fst (debug_of ev f) = fst f"
  by (simp add: debug_of_def)

lemma map_add_upd_left: "m(k \<mapsto> v) ++ M = m ++ ([k \<mapsto> v] ++ M)"
  by (auto simp: map_add_def fun_eq_iff split: option.splits)

lemma rasterize_loop_debug:
  "map_of (debug_info (rstate ev i files (ap, tp, s, sh))) =
     map_of (debug_info s) ++ map_of (rev (map (debug_of ev) (filter (rasterizes ev) files)))"
proof (induction files arbitrary: i ap tp s sh)
  case Nil
  then show ?case by simp
next
  case (Cons f files)
  show ?case
  proof (cases "rasterizes ev f")
    case True
    let ?M = "map_of (rev (map (debug_of ev) (filter (rasterizes ev) files)))"
    have one: "map_of [debug_of ev f] = [fst f \<mapsto> snd (debug_of ev f)]"
      by (cases "debug_of ev f") (auto simp: fun_eq_iff dest: arg_cong [where f = fst])
    have "map_of (debug_info (rstate ev i (f # files) (ap, tp, s, sh))) =
          map_of (debug_info (rasterized_state ev i f s)) ++ ?M"
      using True Cons.IH by (simp add: rasterize_file_ok)
    also have "\<dots> = (map_of (debug_info s))(fst f \<mapsto> snd (debug_of ev f)) ++ ?M"
      by (simp add: update_conv')
    also have "\<dots> = map_of (debug_info s) ++ ([fst f \<mapsto> snd (debug_of ev f)] ++ ?M)"
      by (rule map_add_upd_left)
    also have "[fst f \<mapsto> snd (debug_of ev f)] ++ ?M =
               map_of (rev (map (debug_of ev) (filter (rasterizes ev) (f # files))))"
      using True one by (simp del: map_of.simps)
    finally show ?thesis .
  next
    case False
    then show ?thesis using Cons.IH by (simp add: rasterize_file_fails)
  qed
qed

subsection \<open>The collection loop\<close>

text \<open>
  One future is either outside the batch, or its call raised and a notice is shown, or
  its call returned and its result is appended to the group of its document.
\<close>

lemma returns_iff: "returns ev ap j \<longleftrightarrow> task_result ev ap j \<noteq> None"
  by (auto simp: returns_def task_result_def isl_def split: prod.splits sum.splits)

lemma returns_save:
  "returns ev ap j \<longleftrightarrow> \<not> isl (save_png (world_of ev j) (fst (snd (ap ! j))))"
  by (cases "save_png (world_of ev j) (fst (snd (ap ! j)))")
     (auto simp: returns_def process_page_returns process_page_raises split: prod.splits)

lemma task_result_page:
  "task_result ev ap j = Some r \<Longrightarrow> result_page r = snd (snd (ap ! j))"
  by (cases "save_png (world_of ev j) (fst (snd (ap ! j)))")
     (auto simp: task_result_def process_page_returns process_page_raises split: prod.splits)

lemma collect_future_skip:
  "\<not> j < length ap \<Longrightarrow> collect_future ev ap tp j acc = acc"
  by (simp add: collect_future_def split: prod.splits)

lemma collect_future_raises:
  assumes "j < length ap" "task_result ev ap j = None"
  shows "\<exists>msg. collect_future ev ap tp j (pp, s, sh) = (pp, s, sh @ [Error msg])"
  using assms
  by (auto simp: collect_future_def task_result_def Let_def split: prod.splits sum.splits)

lemma collect_future_returns:
  assumes "j < length ap" "tp \<noteq> 0" "task_result ev ap j = Some r"
    and "map_of (file_results s) (fst (ap ! j)) = Some rs"
  shows "\<exists>sh'. collect_future ev ap tp j (pp, s, sh) =
           (Suc pp, s\<lparr>file_results := AList.update (fst (ap ! j)) (rs @ [r]) (file_results s)\<rparr>, sh')
         \<and> error_count sh' = error_count sh"
proof (cases "save_png (world_of ev j) (fst (snd (ap ! j)))")
  case (Inl e)
  with assms(3) show ?thesis
    by (auto simp: task_result_def process_page_raises split: prod.splits)
next
  case (Inr png)
  with assms show ?thesis
    by (auto simp: collect_future_def task_result_def process_page_returns Let_def error_count_def
        split: prod.splits)
qed

lemma collect_future_cases:
  assumes "tp \<noteq> 0" "keys_cover ap s"
  obtains
    (skip) "\<not> j < length ap" "collect_future ev ap tp j (pp, s, sh) = (pp, s, sh)"
  | (raises) msg where "j < length ap" "task_result ev ap j = None"
      "collect_future ev ap tp j (pp, s, sh) = (pp, s, sh @ [Error msg])"
  | (returns) r rs sh' where "j < length ap" "task_result ev ap j = Some r"
      "map_of (file_results s) (fst (ap ! j)) = Some rs"
      "collect_future ev ap tp j (pp, s, sh) =
         (Suc pp, s\<lparr>file_results := AList.update (fst (ap ! j)) (rs @ [r]) (file_results s)\<rparr>, sh')"
      "error_count sh' = error_count sh"
proof (cases "j < length ap")
  case False
  then show ?thesis using skip by (simp add: collect_future_skip)
next
  case True
  show ?thesis
  proof (cases "task_result ev ap j")
    case None
    with True collect_future_raises [of j ap ev tp pp s sh] raises show ?thesis by blast
  next
    case (Some r)
    from True assms(2) have "fst (ap ! j) \<in> fst ` set (file_results s)"
      by (simp add: keys_cover_def)
    then obtain rs where rs: "map_of (file_results s) (fst (ap ! j)) = Some rs"
      by (metis domD dom_map_of_conv_image_fst)
    from collect_future_returns [OF True assms(1) Some rs, of pp sh] returns [OF True Some rs]
    show ?thesis by blast
  qed
qed

lemma keys_cover_update:
  "keys_cover ap s \<Longrightarrow> j < length ap \<Longrightarrow>
   keys_cover ap (s\<lparr>file_results := AList.update (fst (ap ! j)) v (file_results s)\<rparr>)"
  by (simp add: keys_cover_def update_keys)

lemma keys_update_same:
  "j < length ap \<Longrightarrow> keys_cover ap s \<Longrightarrow>
   map fst (AList.update (fst (ap ! j)) v (file_results s)) = map fst (file_results s)"
  by (simp add: keys_cover_def update_keys)

lemma collect_loop_results:
  assumes "tp \<noteq> 0" "keys_cover ap s"
  shows "map_of (file_results (cstate ev ap tp sched (pp, s, sh))) nm =
           map_option (\<lambda>rs. rs @ collected ev ap nm sched) (map_of (file_results s) nm)"
  using assms(2)
proof (induction sched arbitrary: pp s sh)
  case Nil
  then show ?case by (simp add: collected_def map_filter_simps option.map_ident)
next
  case (Cons j sched)
  from assms(1) Cons.prems show ?case
  proof (cases rule: collect_future_cases [of tp ap s j ev pp sh])
    case skip
    then show ?thesis using Cons.IH [OF Cons.prems]
      by (simp add: collected_def map_filter_simps)
  next
    case (raises msg)
    then show ?thesis using Cons.IH [OF Cons.prems]
      by (simp add: collected_def map_filter_simps)
  next
    case (returns r rs sh')
    let ?s' = "s\<lparr>file_results := AList.update (fst (ap ! j)) (rs @ [r]) (file_results s)\<rparr>"
    have "keys_cover ap ?s'" using Cons.prems returns(1) by (rule keys_cover_update)
    from Cons.IH [OF this] returns show ?thesis
      by (cases "map_of (file_results s) nm")
         (auto simp: collected_def map_filter_simps update_conv')
  qed
qed

lemma collect_loop_frame:
  assumes "tp \<noteq> 0" "keys_cover ap s"
  shows "file_times (cstate ev ap tp sched (pp, s, sh)) = file_times s
       \<and> debug_info (cstate ev ap tp sched (pp, s, sh)) = debug_info s
       \<and> processed (cstate ev ap tp sched (pp, s, sh)) = processed s
       \<and> uploaded_files (cstate ev ap tp sched (pp, s, sh)) = uploaded_files s
       \<and> map fst (file_results (cstate ev ap tp sched (pp, s, sh))) = map fst (file_results s)"
  using assms(2)
proof (induction sched arbitrary: pp s sh)
  case Nil
  then show ?case by simp
next
  case (Cons j sched)
  from assms(1) Cons.prems show ?case
  proof (cases rule: collect_future_cases [of tp ap s j ev pp sh])
    case skip
    then show ?thesis using Cons.IH [OF Cons.prems] by simp
  next
    case (raises msg)
    then show ?thesis using Cons.IH [OF Cons.prems] by simp
  next
    case (returns r rs sh')
    let ?s' = "s\<lparr>file_results := AList.update (fst (ap ! j)) (rs @ [r]) (file_results s)\<rparr>"
    have "keys_cover ap ?s'" using Cons.prems returns(1) by (rule keys_cover_update)
    from Cons.IH [OF this] returns keys_update_same [OF returns(1) Cons.prems]
    show ?thesis by simp
  qed
qed

lemma total_results_update:
  "map_of fr k = Some rs \<Longrightarrow>
   total_results (AList.update k (rs @ [r]) fr) = Suc (total_results fr)"
  by (induction fr) (auto simp: total_results_def)

lemma collect_loop_count:
  assumes "tp \<noteq> 0" "keys_cover ap s"
  shows "total_results (file_results (cstate ev ap tp sched (pp, s, sh))) =
           total_results (file_results s)
           + length (filter (\<lambda>j. j < length ap \<and> returns ev ap j) sched)
       \<and> error_count (cshown ev ap tp sched (pp, s, sh)) =
           error_count sh
           + length (filter (\<lambda>j. j < length ap \<and> \<not> returns ev ap j) sched)"
  using assms(2)
proof (induction sched arbitrary: pp s sh)
  case Nil
  then show ?case by simp
next
  case (Cons j sched)
  from assms(1) Cons.prems show ?case
  proof (cases rule: collect_future_cases [of tp ap s j ev pp sh])
    case skip
    then show ?thesis using Cons.IH [OF Cons.prems] by simp
  next
    case (raises msg)
    then show ?thesis using Cons.IH [OF Cons.prems, of pp "sh @ [Error msg]"]
      by (simp add: returns_iff error_count_def)
  next
    case (returns r rs sh')
    let ?s' = "s\<lparr>file_results := AList.update (fst (ap ! j)) (rs @ [r]) (file_results s)\<rparr>"
    have "keys_cover ap ?s'" using Cons.prems returns(1) by (rule keys_cover_update)
    from Cons.IH [OF this, of "Suc pp" sh'] returns total_results_update [OF returns(3), of r]
    show ?thesis by (simp add: returns_iff)
  qed
qed

subsection \<open>The phases of a run\<close>

lemma start_state_simps [simp]:
  "file_results (start_state uploaded s) = []"
  "file_times (start_state uploaded s) = []"
  "debug_info (start_state uploaded s) = []"
  "processed (start_state uploaded s) = processed s"
  "uploaded_files (start_state uploaded s) = stored_files uploaded s"
  by (simp_all add: start_state_def)

lemma coordinator_unfold:
  assumes "uploaded \<noteq> []" "\<not> processed s"
  shows "coordinator ev workers uploaded sched s =
     (case rasterize_loop ev 0 (stored_files uploaded s)
             ([], 0, start_state uploaded s, start_shown) of
        (all_pages, total_pages, s3, shown) \<Rightarrow>
          if all_pages \<noteq> [] then
            (case collect_loop ev all_pages total_pages sched
                    (0, s3, shown @ [dispatch_text total_pages workers]) of
               (processed_pages, s4, shown4) \<Rightarrow>
                 (s4\<lparr>file_results := sort_results (file_results s4), processed := True\<rparr>,
                  shown4 @ [ProgressText ''Processing complete!'']))
          else (s3, shown @ [ProgressText ''Processing complete!'']))"
proof -
  have st: "(if map fst uploaded \<noteq> map fst (uploaded_files s)
             then s\<lparr>uploaded_files := uploaded\<rparr> else s)
            \<lparr>file_results := [], file_times := [], debug_info := []\<rparr> = start_state uploaded s"
    by (simp add: start_state_def stored_files_def)
  have up: "uploaded_files (start_state uploaded s) = stored_files uploaded s" by simp
  show ?thesis
    using assms
    unfolding coordinator_def Let_def st up start_shown_def dispatch_text_def
    by (simp split: prod.splits)
qed

lemma coordinator_idle:
  assumes "uploaded \<noteq> []" "\<not> processed s" "run_items ev uploaded s = []"
  shows "fst (coordinator ev workers uploaded sched s) = after_rasterize ev uploaded s"
proof -
  obtain ap tp s3 sh where r: "rasterize_loop ev 0 (stored_files uploaded s)
             ([], 0, start_state uploaded s, start_shown) = (ap, tp, s3, sh)"
    by (metis prod_cases4)
  from rasterize_loop_pages [of ev 0 "stored_files uploaded s" "[]" 0 "start_state uploaded s" start_shown]
    r assms(3)
  have "ap = []" by (simp add: run_items_def)
  with r show ?thesis
    by (simp add: coordinator_unfold [OF assms(1,2)] after_rasterize_def)
qed

lemma coordinator_dispatch:
  assumes "uploaded \<noteq> []" "\<not> processed s" "run_items ev uploaded s \<noteq> []"
  shows "\<exists>sh. fst (coordinator ev workers uploaded sched s) =
           (cstate ev (run_items ev uploaded s) (length (run_items ev uploaded s)) sched
              (0, after_rasterize ev uploaded s, sh))
           \<lparr>file_results := sort_results (file_results
               (cstate ev (run_items ev uploaded s) (length (run_items ev uploaded s)) sched
                  (0, after_rasterize ev uploaded s, sh))),
             processed := True\<rparr>
         \<and> snd (coordinator ev workers uploaded sched s) =
             cshown ev (run_items ev uploaded s) (length (run_items ev uploaded s)) sched
                  (0, after_rasterize ev uploaded s, sh) @ [ProgressText ''Processing complete!'']
         \<and> error_count sh =
             length (filter (\<lambda>f. \<not> rasterizes ev f) (stored_files uploaded s))"
proof -
  obtain ap tp s3 sh where r: "rasterize_loop ev 0 (stored_files uploaded s)
             ([], 0, start_state uploaded s, start_shown) = (ap, tp, s3, sh)"
    by (metis prod_cases4)
  from rasterize_loop_pages [of ev 0 "stored_files uploaded s" "[]" 0 "start_state uploaded s" start_shown] r
  have ap: "ap = run_items ev uploaded s" by (simp add: run_items_def)
  from rasterize_loop_total [of ev 0 "stored_files uploaded s" "[]" 0 "start_state uploaded s" start_shown] r
  have tp: "tp = length (run_items ev uploaded s)" by (simp add: run_items_def)
  from r have s3: "s3 = after_rasterize ev uploaded s" by (simp add: after_rasterize_def)
  from rasterize_loop_shown [of ev 0 "stored_files uploaded s" "[]" 0 "start_state uploaded s" start_shown] r
  have sh: "sh = start_shown @ map (rasterization_notice ev)
              (filter (\<lambda>f. \<not> rasterizes ev f) (stored_files uploaded s))" by simp
  have notice: "is_error (rasterization_notice ev f)" for f
    by (simp add: rasterization_notice_def)
  have ec: "error_count (sh @ [dispatch_text tp workers]) =
      length (filter (\<lambda>f. \<not> rasterizes ev f) (stored_files uploaded s))"
    unfolding sh error_count_def start_shown_def dispatch_text_def
    by (simp add: filter_map comp_def notice)
  show ?thesis
    apply (rule exI [of _ "sh @ [dispatch_text tp workers]"])
    using r [unfolded ap tp s3] assms(3) ec
    by (simp add: coordinator_unfold [OF assms(1,2)] tp split: prod.splits)
qed

subsection \<open>Sorting and the result groups\<close>

lemma map_of_sort_results:
  "map_of (sort_results fr) nm = map_option (sort_key result_page) (map_of fr nm)"
  by (induction fr) (auto simp: sort_results_def)

lemma total_results_sort: "total_results (sort_results fr) = total_results fr"
  by (induction fr) (auto simp: sort_results_def total_results_def)

lemma keys_sort_results: "map fst (sort_results fr) = map fst fr"
  by (induction fr) (auto simp: sort_results_def)

lemma map_sort_key: "map f (sort_key f xs) = sort (map f xs)"
  by (rule properties_for_sort [symmetric]) simp_all

lemma file_items_names: "x \<in> set (file_items ev f) \<Longrightarrow> fst x = fst f \<and> rasterizes ev f"
  by (cases "convert_from_bytes ev (snd f)")
     (auto simp: file_items_def rasterizes_def)

lemma work_items_names:
  "x \<in> set (work_items ev files) \<Longrightarrow> fst x \<in> set (rasterized_names ev files)"
  by (auto simp: work_items_def rasterized_names_def dest!: file_items_names)

lemma after_rasterize_results:
  "map_of (file_results (after_rasterize ev uploaded s)) nm =
     (if nm \<in> set (rasterized_names ev (stored_files uploaded s)) then Some [] else None)"
  by (simp add: after_rasterize_def rasterize_loop_results)

lemma after_rasterize_keys:
  "set (map fst (file_results (after_rasterize ev uploaded s))) =
     set (rasterized_names ev (stored_files uploaded s))"
  using rasterize_loop_keys [of ev 0 "stored_files uploaded s" "[]" 0 "start_state uploaded s" start_shown]
  by (simp add: after_rasterize_def)

lemma keys_cover_after_rasterize:
  "keys_cover (run_items ev uploaded s) (after_rasterize ev uploaded s)"
  unfolding keys_cover_def after_rasterize_keys run_items_def
  by (auto intro: work_items_names)

lemma collected_no_items: "collected ev [] nm sched = []"
  by (induction sched) (simp_all add: collected_def map_filter_simps)

lemma run_results:
  assumes "uploaded \<noteq> []" "\<not> processed s"
  shows "map_of (file_results (fst (coordinator ev workers uploaded sched s))) nm =
     (if nm \<in> set (rasterized_names ev (stored_files uploaded s))
      then Some (sort_key result_page (collected ev (run_items ev uploaded s) nm sched))
      else None)"
proof (cases "run_items ev uploaded s = []")
  case True
  then show ?thesis
    by (simp add: coordinator_idle [OF assms True] after_rasterize_results collected_no_items)
next
  case False
  then have tp: "length (run_items ev uploaded s) \<noteq> 0" by simp
  from coordinator_dispatch [OF assms False] obtain sh where
    "fst (coordinator ev workers uploaded sched s) =
           (cstate ev (run_items ev uploaded s) (length (run_items ev uploaded s)) sched
              (0, after_rasterize ev uploaded s, sh))
           \<lparr>file_results := sort_results (file_results
               (cstate ev (run_items ev uploaded s) (length (run_items ev uploaded s)) sched
                  (0, after_rasterize ev uploaded s, sh))),
             processed := True\<rparr>"
    by blast
  then show ?thesis
    by (simp add: map_of_sort_results
        collect_loop_results [OF tp keys_cover_after_rasterize] after_rasterize_results)
qed

lemma completion_order_filter:
  "completion_order n sched \<Longrightarrow>
   length (filter (\<lambda>j. j < n \<and> P j) sched) = length (filter P [0..<n])"
proof -
  assume co: "completion_order n sched"
  have "length (filter (\<lambda>j. j < n \<and> P j) sched) = size (filter_mset (\<lambda>j. j < n \<and> P j) (mset sched))"
    by (metis mset_filter size_mset)
  also have "\<dots> = size (filter_mset (\<lambda>j. j < n \<and> P j) (mset [0..<n]))"
    using co by (simp add: completion_order_def)
  also have "\<dots> = length (filter (\<lambda>j. j < n \<and> P j) [0..<n])"
    by (metis mset_filter size_mset)
  also have "filter (\<lambda>j. j < n \<and> P j) [0..<n] = filter P [0..<n]"
    by (rule filter_cong) auto
  finally show ?thesis .
qed

lemma collected_pages:
  "map result_page (collected ev ap nm [0..<length ap]) =
     map (page_index_at ap) (filter (\<lambda>j. fst (ap ! j) = nm \<and> returns ev ap j) [0..<length ap])"
proof -
  let ?g = "\<lambda>j. if j < length ap \<and> fst (ap ! j) = nm then task_result ev ap j else None"
  have f: "filter (\<lambda>j. ?g j \<noteq> None) [0..<length ap] =
           filter (\<lambda>j. fst (ap ! j) = nm \<and> returns ev ap j) [0..<length ap]"
    by (rule filter_cong) (auto simp: returns_iff)
  have "map result_page (collected ev ap nm [0..<length ap]) =
        map (result_page \<circ> (the \<circ> ?g)) (filter (\<lambda>j. ?g j \<noteq> None) [0..<length ap])"
    by (simp add: collected_def map_filter_def)
  also have "\<dots> = map (page_index_at ap) (filter (\<lambda>j. ?g j \<noteq> None) [0..<length ap])"
    by (rule map_cong) (auto simp: page_index_at_def dest: task_result_page split: if_splits)
  finally show ?thesis by (simp only: f)
qed

lemma collected_mset:
  "completion_order (length ap) sched \<Longrightarrow>
   mset (collected ev ap nm sched) = mset (collected ev ap nm [0..<length ap])"
  by (simp only: collected_def map_filter_def completion_order_def mset_map mset_filter)

lemma sorted_collected_pages:
  assumes "completion_order (length ap) sched"
  shows "map result_page (sort_key result_page (collected ev ap nm sched)) =
     sort (map (page_index_at ap)
        (filter (\<lambda>j. fst (ap ! j) = nm \<and> returns ev ap j) [0..<length ap]))"
proof -
  have "mset (map result_page (collected ev ap nm sched)) =
        mset (map result_page (collected ev ap nm [0..<length ap]))"
    using collected_mset [OF assms] by (metis mset_map)
  then have "sort (map result_page (collected ev ap nm sched)) =
             sort (map result_page (collected ev ap nm [0..<length ap]))"
    by (metis properties_for_sort sorted_sort mset_sort)
  then show ?thesis by (simp add: map_sort_key collected_pages)
qed

lemma filter_positions:
  "map (\<lambda>j. g (xs ! j)) (filter (\<lambda>j. P (xs ! j)) [0..<length xs]) = map g (filter P xs)"
proof -
  have "map g (filter P xs) = map g (filter P (map ((!) xs) [0..<length xs]))"
    by (simp add: map_nth)
  also have "\<dots> = map (\<lambda>j. g (xs ! j)) (filter (\<lambda>j. P (xs ! j)) [0..<length xs])"
    by (simp add: filter_map comp_def)
  finally show ?thesis by simp
qed

lemma file_items_pages:
  "convert_from_bytes ev (snd f) = Inr pages \<Longrightarrow>
   map (snd \<circ> snd) (file_items ev f) = [1..<Suc (length pages)]"
proof -
  assume c: "convert_from_bytes ev (snd f) = Inr pages"
  have "map (snd \<circ> snd) (file_items ev f) = map (\<lambda>ip. Suc (fst ip)) (enumerate 0 pages)"
    using c by (simp add: file_items_def comp_def case_prod_beta)
  also have "\<dots> = map Suc (map fst (enumerate 0 pages))"
    by (simp only: map_map comp_def)
  also have "\<dots> = map Suc [0..<length pages]" by (simp only: map_fst_enumerate add_0)
  also have "\<dots> = [1..<Suc (length pages)]" by (simp only: map_Suc_upt One_nat_def)
  finally show ?thesis .
qed

lemma named_items:
  assumes "distinct (map fst files)" "(nm, data) \<in> set files"
    and "convert_from_bytes ev data = Inr pages"
  shows "map (snd \<circ> snd) (filter (\<lambda>x. fst x = nm) (work_items ev files))
           = [1..<Suc (length pages)]"
  using assms(1,2)
proof (induction files)
  case Nil
  then show ?case by simp
next
  case (Cons f files)
  have own: "filter (\<lambda>x. fst x = nm) (file_items ev f) =
             (if fst f = nm then file_items ev f else [])"
    by (auto simp: filter_empty_conv filter_id_conv dest: file_items_names)
  show ?case
  proof (cases "fst f = nm")
    case True
    with Cons.prems have f: "f = (nm, data)" by (cases f) (auto simp: image_iff)
    from True Cons.prems have "nm \<notin> set (map fst files)" by simp
    then have "nm \<notin> set (rasterized_names ev files)" by (auto simp: rasterized_names_def)
    then have "filter (\<lambda>x. fst x = nm) (work_items ev files) = []"
      by (auto simp: filter_empty_conv dest: work_items_names)
    then have "map (snd \<circ> snd) (filter (\<lambda>x. fst x = nm) (work_items ev (f # files))) =
               map (snd \<circ> snd) (file_items ev f)"
      using own True by (simp add: work_items_def)
    also have "\<dots> = [1..<Suc (length pages)]"
      using f assms(3) by (intro file_items_pages) simp
    finally show ?thesis .
  next
    case False
    with Cons.prems have "(nm, data) \<in> set files" by auto
    with Cons.IH Cons.prems(1) own False show ?thesis by (simp add: work_items_def)
  qed
qed

subsection \<open>Closure of the pool\<close>

lemma coordinator_processed:
  "processed s \<Longrightarrow> coordinator ev workers uploaded sched s = (s, [])"
  by (simp add: coordinator_def)

lemma coordinator_idle_shown:
  assumes "uploaded \<noteq> []" "\<not> processed s" "run_items ev uploaded s = []"
  shows "snd (coordinator ev workers uploaded sched s) =
           start_shown @ map (rasterization_notice ev)
              (filter (\<lambda>f. \<not> rasterizes ev f) (stored_files uploaded s))
           @ [ProgressText ''Processing complete!'']"
proof -
  obtain ap tp s3 sh where r: "rasterize_loop ev 0 (stored_files uploaded s)
             ([], 0, start_state uploaded s, start_shown) = (ap, tp, s3, sh)"
    by (metis prod_cases4)
  from rasterize_loop_pages [of ev 0 "stored_files uploaded s" "[]" 0 "start_state uploaded s" start_shown]
    r assms(3)
  have "ap = []" by (simp add: run_items_def)
  moreover from rasterize_loop_shown [of ev 0 "stored_files uploaded s" "[]" 0 "start_state uploaded s" start_shown] r
  have "sh = start_shown @ map (rasterization_notice ev)
              (filter (\<lambda>f. \<not> rasterizes ev f) (stored_files uploaded s))" by simp
  ultimately show ?thesis using r
    by (simp add: coordinator_unfold [OF assms(1,2)])
qed

lemma error_count_notices:
  "error_count (start_shown @ map (rasterization_notice ev) fs @ [ProgressText x]) = length fs"
  by (simp add: error_count_def start_shown_def rasterization_notice_def filter_map comp_def)

lemma total_after_rasterize:
  "total_results (file_results (after_rasterize ev uploaded s)) = 0"
proof -
  have "\<forall>kv \<in> set (file_results (after_rasterize ev uploaded s)). snd kv = []"
    unfolding after_rasterize_def by (rule rasterize_loop_empty) simp
  then show ?thesis by (simp add: total_results_def)
qed

lemma run_accounting:
  assumes "uploaded \<noteq> []" "\<not> processed s"
    and "completion_order (length (run_items ev uploaded s)) sched"
  shows "total_results (file_results (fst (coordinator ev workers uploaded sched s))) =
           length (filter (returns ev (run_items ev uploaded s))
                     [0..<length (run_items ev uploaded s)])"
    and "error_count (snd (coordinator ev workers uploaded sched s)) =
           length (filter (\<lambda>f. \<not> rasterizes ev f) (stored_files uploaded s))
           + length (filter (\<lambda>j. \<not> returns ev (run_items ev uploaded s) j)
                       [0..<length (run_items ev uploaded s)])"
proof -
  let ?ap = "run_items ev uploaded s"
  have "total_results (file_results (fst (coordinator ev workers uploaded sched s))) =
           length (filter (returns ev ?ap) [0..<length ?ap])
      \<and> error_count (snd (coordinator ev workers uploaded sched s)) =
           length (filter (\<lambda>f. \<not> rasterizes ev f) (stored_files uploaded s))
           + length (filter (\<lambda>j. \<not> returns ev ?ap j) [0..<length ?ap])"
  proof (cases "?ap = []")
    case True
    then show ?thesis
      by (simp add: coordinator_idle [OF assms(1,2) True] total_after_rasterize
          coordinator_idle_shown [OF assms(1,2) True] error_count_notices)
  next
    case False
    then have tp: "length ?ap \<noteq> 0" by simp
    from coordinator_dispatch [OF assms(1,2) False] obtain sh where
      st: "fst (coordinator ev workers uploaded sched s) =
           (cstate ev ?ap (length ?ap) sched (0, after_rasterize ev uploaded s, sh))
           \<lparr>file_results := sort_results (file_results
               (cstate ev ?ap (length ?ap) sched (0, after_rasterize ev uploaded s, sh))),
             processed := True\<rparr>"
      and shn: "snd (coordinator ev workers uploaded sched s) =
             cshown ev ?ap (length ?ap) sched (0, after_rasterize ev uploaded s, sh)
               @ [ProgressText ''Processing complete!'']"
      and ec: "error_count sh =
             length (filter (\<lambda>f. \<not> rasterizes ev f) (stored_files uploaded s))"
      by blast
    note cnt = collect_loop_count [where ap = "?ap" and s = "after_rasterize ev uploaded s"
        and ev = ev and tp = "length ?ap" and sched = sched and pp = 0 and sh = sh,
        OF tp keys_cover_after_rasterize]
    have a: "length (filter (\<lambda>j. j < length ?ap \<and> returns ev ?ap j) sched) =
             length (filter (returns ev ?ap) [0..<length ?ap])"
      by (rule completion_order_filter [OF assms(3)])
    have b: "length (filter (\<lambda>j. j < length ?ap \<and> \<not> returns ev ?ap j) sched) =
             length (filter (\<lambda>j. \<not> returns ev ?ap j) [0..<length ?ap])"
      by (rule completion_order_filter [OF assms(3)])
    have e: "error_count (xs @ [ProgressText x]) = error_count xs" for xs x
      by (simp add: error_count_def)
    from cnt a b ec show ?thesis
      by (simp add: st shn total_results_sort total_after_rasterize e)
  qed
  then show "total_results (file_results (fst (coordinator ev workers uploaded sched s))) =
           length (filter (returns ev ?ap) [0..<length ?ap])"
    and "error_count (snd (coordinator ev workers uploaded sched s)) =
           length (filter (\<lambda>f. \<not> rasterizes ev f) (stored_files uploaded s))
           + length (filter (\<lambda>j. \<not> returns ev ?ap j) [0..<length ?ap])"
    by blast+
qed

text \<open>
  Claim C1, amended. In every run, for every completion order, each work item submitted to
  the pool is collected once and has exactly one outcome: a page result when its
  \<open>process_page\<close> call returns (an error text included), or one error notice and no
  page result when the call raises. So the number of page results plus the number of
  raising calls is the number of work items, the error notices shown are those of the
  documents that failed to rasterize plus those of the raising calls, and the number of
  page results equals the number of work items when no call raises.
\<close>

theorem pool_accounting:
  assumes "uploaded \<noteq> []" "\<not> processed s"
    and "completion_order (length (run_items ev uploaded s)) sched"
  shows "total_results (file_results (fst (coordinator ev workers uploaded sched s)))
           + length (filter (\<lambda>j. \<not> returns ev (run_items ev uploaded s) j)
                       [0..<length (run_items ev uploaded s)])
         = length (run_items ev uploaded s)
       \<and> error_count (snd (coordinator ev workers uploaded sched s)) =
           length (filter (\<lambda>f. \<not> rasterizes ev f) (stored_files uploaded s))
           + length (filter (\<lambda>j. \<not> returns ev (run_items ev uploaded s) j)
                       [0..<length (run_items ev uploaded s)])
       \<and> ((\<forall>j < length (run_items ev uploaded s). returns ev (run_items ev uploaded s) j) \<longrightarrow>
            total_results (file_results (fst (coordinator ev workers uploaded sched s)))
              = length (run_items ev uploaded s))"
proof -
  let ?ap = "run_items ev uploaded s"
  have split: "length (filter (returns ev ?ap) [0..<length ?ap])
        + length (filter (\<lambda>j. \<not> returns ev ?ap j) [0..<length ?ap]) = length ?ap"
    using sum_length_filter_compl [of "returns ev ?ap" "[0..<length ?ap]"] by simp
  have full: "length (filter (returns ev ?ap) [0..<length ?ap]) = length ?ap"
    if "\<forall>j < length ?ap. returns ev ?ap j"
  proof -
    from that have "filter (returns ev ?ap) [0..<length ?ap] = [0..<length ?ap]"
      by (simp add: filter_id_conv)
    then show ?thesis by simp
  qed
  from run_accounting [OF assms] split full show ?thesis by simp
qed

text \<open>Unfolding the model on concrete runs.\<close>

lemmas eval_defs = coordinator_def initial_state_def demo_env_def rasterize_file_def collect_future_def
     process_page_def answering_def Let_def sort_results_def response_to_text_def ok_200_def hello_body_def and_then_def
     str_nat.simps digit_char_def str_int_def enumerate_eq_zip post_request_def

lemma demo_env_simps:
  "world_of demo_env j = answering (Inr ok_200)"
  "convert_from_bytes demo_env data =
     (if data = [] then Inl ''Unable to get page count.'' else Inr (map unat data))"
  "file_clock demo_env i = real i"
  by (simp_all add: demo_env_def)

lemma demo_items:
  "run_items demo_env mixed_upload fresh =
     [(''a.pdf'', 7, 1), (''a.pdf'', 13, 2), (''a.pdf'', 9, 3), (''b.pdf'', 1, 1), (''b.pdf'', 2, 2)]"
  by (simp add: run_items_def stored_files_def work_items_def file_items_def demo_env_def
      mixed_upload_def initial_state_def fresh_def enumerate_eq_zip)

lemma demo_single_items: "run_items demo_env single_upload fresh = [(''a.pdf'', 7, 1)]"
  by (simp add: run_items_def stored_files_def work_items_def file_items_def demo_env_def
      single_upload_def initial_state_def fresh_def enumerate_eq_zip)

lemma demo_guard:
  "mixed_upload \<noteq> []" "single_upload \<noteq> []" "\<not> processed fresh"
  "stored_files mixed_upload fresh = mixed_upload"
  "stored_files single_upload fresh = single_upload"
  by (simp_all add: mixed_upload_def single_upload_def fresh_def initial_state_def stored_files_def)

lemma demo_order:
  "completion_order (length (run_items demo_env mixed_upload fresh)) mixed_order"
  "completion_order (length (run_items demo_env single_upload fresh)) [0]"
  by (simp_all add: demo_items demo_single_items completion_order_def mixed_order_def upt_rec
      numeral_eq_Suc)

lemma demo_mixed_fresh: "fst (coordinator demo_env 2 mixed_upload mixed_order fresh) =
  \<lparr>file_results =
     [(''a.pdf'',
       [\<lparr>result_page = 1, result_text = JStr ''hello'',
           result_page_time = 2, result_img_b64 = ''H'', result_image = 7\<rparr>,
        \<lparr>result_page = 3, result_text = JStr ''hello'',
           result_page_time = 2, result_img_b64 = ''A'',
           result_image = 9\<rparr>]),
      (''b.pdf'',
       [\<lparr>result_page = 1, result_text = JStr ''hello'',
           result_page_time = 2, result_img_b64 = ''A'', result_image = 1\<rparr>,
        \<lparr>result_page = 2, result_text = JStr ''hello'',
           result_page_time = 2, result_img_b64 = ''A'',
           result_image = 2\<rparr>])],
     file_times = [(''a.pdf'', 0), (''b.pdf'', 2)],
     debug_info =
       [(''a.pdf'', \<lparr>pdf_size = 3, page_count = 3\<rparr>),
        (''b.pdf'', \<lparr>pdf_size = 2, page_count = 2\<rparr>)],
     processed = True,
     uploaded_files =
       [(''a.pdf'', [7, 13, 9]), (''bad.pdf'', []), (''b.pdf'', [1, 2])]\<rparr>"
  by (simp add: eval_defs mixed_upload_def mixed_order_def fresh_def)

text \<open>
  Claim C1 as stated fails when a call raises: of five work items, the one whose page
  cannot be encoded leaves no page result.
\<close>

theorem pool_closure_counterexample:
  "mixed_upload \<noteq> [] \<and> \<not> processed fresh
   \<and> completion_order (length (run_items demo_env mixed_upload fresh)) mixed_order
   \<and> length (run_items demo_env mixed_upload fresh) = 5
   \<and> total_results (file_results (fst (coordinator demo_env 2 mixed_upload mixed_order fresh))) = 4"
  using demo_order(1) by (simp add: demo_items demo_guard demo_mixed_fresh total_results_def)

lemma demo_faulted:
  "filter (\<lambda>j. \<not> returns demo_env (run_items demo_env mixed_upload fresh) j) [0..<5] = [1]"
proof -
  have r: "returns demo_env (run_items demo_env mixed_upload fresh) j \<longleftrightarrow> j \<noteq> 1"
    if "j < 5" for j
  proof -
    from that have "j = 0 \<or> j = 1 \<or> j = 2 \<or> j = 3 \<or> j = 4" by arith
    then show ?thesis
      by (auto simp: returns_save demo_items demo_env_simps answering_simps)
  qed
  have "filter (\<lambda>j. \<not> returns demo_env (run_items demo_env mixed_upload fresh) j) [0..<5] =
        filter (\<lambda>j. j = 1) [0..<5]"
    by (rule filter_cong) (auto simp: r)
  also have "\<dots> = [1]" by (simp add: upt_rec)
  finally show ?thesis .
qed

lemma demo_unrasterized:
  "filter (\<lambda>f. \<not> rasterizes demo_env f) (stored_files mixed_upload fresh) = [(''bad.pdf'', [])]"
  unfolding demo_guard(4) by (simp add: mixed_upload_def rasterizes_def demo_env_simps)

lemma demo_single_returns:
  "\<forall>j < length (run_items demo_env single_upload fresh).
         returns demo_env (run_items demo_env single_upload fresh) j"
  by (simp add: returns_save demo_single_items demo_env_simps answering_simps)

theorem pool_accounting_witness:
  "mixed_upload \<noteq> [] \<and> single_upload \<noteq> [] \<and> \<not> processed fresh
   \<and> completion_order (length (run_items demo_env mixed_upload fresh)) mixed_order
   \<and> completion_order (length (run_items demo_env single_upload fresh)) [0]
   \<and> total_results (file_results (fst (coordinator demo_env 2 mixed_upload mixed_order fresh))) + 1 = 5
   \<and> error_count (snd (coordinator demo_env 2 mixed_upload mixed_order fresh)) = 2
   \<and> length (run_items demo_env single_upload fresh) = 1
   \<and> returns demo_env (run_items demo_env single_upload fresh) 0
   \<and> total_results (file_results (fst (coordinator demo_env 2 single_upload [0] fresh))) = 1"
proof -
  have n: "length (run_items demo_env mixed_upload fresh) = 5"
    "length (run_items demo_env single_upload fresh) = 1"
    by (simp_all add: demo_items demo_single_items)
  from pool_accounting [OF demo_guard(1,3) demo_order(1), of 2]
  have "total_results (file_results (fst (coordinator demo_env 2 mixed_upload mixed_order fresh))) + 1 = 5
     \<and> error_count (snd (coordinator demo_env 2 mixed_upload mixed_order fresh)) = 2"
    unfolding demo_faulted demo_unrasterized n(1) by simp
  moreover from pool_accounting [OF demo_guard(2,3) demo_order(2), of 2] demo_single_returns
  have "total_results (file_results (fst (coordinator demo_env 2 single_upload [0] fresh))) = 1"
    unfolding n(2) by blast
  ultimately show ?thesis
    using demo_guard(1,2,3) demo_order demo_single_returns n(2) by simp
qed

subsection \<open>Change detection and re-invocation\<close>

lemma coordinator_sets_processed:
  assumes "uploaded \<noteq> []" "\<not> processed s" "run_items ev uploaded s \<noteq> []"
  shows "processed (fst (coordinator ev workers uploaded sched s))"
  using coordinator_dispatch [OF assms, of workers sched] by auto

lemma demo_single_run:
  "fst (coordinator demo_env 2 single_upload [0] fresh) =
     \<lparr>file_results =
        [(''a.pdf'',
          [\<lparr>result_page = 1, result_text = JStr ''hello'', result_page_time = 2,
            result_img_b64 = ''H'', result_image = 7\<rparr>])],
      file_times = [(''a.pdf'', 0)],
      debug_info = [(''a.pdf'', \<lparr>pdf_size = 1, page_count = 1\<rparr>)],
      processed = True, uploaded_files = [(''a.pdf'', [7])]\<rparr>"
  by (simp add: eval_defs single_upload_def fresh_def)

lemma demo_bad_run:
  "coordinator demo_env 2 bad_upload [] fresh =
     (\<lparr>file_results = [], file_times = [], debug_info = [], processed = False,
       uploaded_files = [(''bad.pdf'', [])]\<rparr>,
      [Info ''Processing PDFs in parallel...'', ProgressBar 0,
       Error ''Failed to process bad.pdf: Unable to get page count.'',
       ProgressText ''Processing complete!''])"
  by (simp add: eval_defs bad_upload_def fresh_def)

text \<open>
  Claim C5 fails on the code. After the completed run on \<open>a.pdf\<close> the uploader holds
  \<open>b.pdf\<close>, a different set of names; the guard of line 149 is false because
  \<open>processed\<close> is still set, so nothing is reset, nothing is processed, and the session
  keeps the results of \<open>a.pdf\<close>.
\<close>

theorem new_input_ignored:
  "processed (fst (coordinator demo_env 2 single_upload [0] fresh))
   \<and> map fst second_upload
        \<noteq> map fst (uploaded_files (fst (coordinator demo_env 2 single_upload [0] fresh)))
   \<and> coordinator demo_env 2 second_upload [0] (fst (coordinator demo_env 2 single_upload [0] fresh))
        = (fst (coordinator demo_env 2 single_upload [0] fresh), [])
   \<and> map fst (file_results (fst (coordinator demo_env 2 second_upload [0]
          (fst (coordinator demo_env 2 single_upload [0] fresh))))) = [''a.pdf'']"
proof -
  have p: "processed (fst (coordinator demo_env 2 single_upload [0] fresh))"
    by (simp add: demo_single_run)
  from coordinator_processed [OF p] p show ?thesis
    by (simp add: demo_single_run second_upload_def)
qed

text \<open>
  Claim C6, amended. After a run that dispatched at least one page, invoking the
  coordinator again with the same input (whatever the backend, the clock or the
  completion order would be) is a no-op: the session state, with its results, timings
  and debug info, is unchanged and nothing is shown.
\<close>

theorem rerun_noop:
  assumes "uploaded \<noteq> []" "\<not> processed s" "run_items ev uploaded s \<noteq> []"
  shows "coordinator ev' workers' uploaded sched' (fst (coordinator ev workers uploaded sched s))
           = (fst (coordinator ev workers uploaded sched s), [])"
  by (rule coordinator_processed) (rule coordinator_sets_processed [OF assms])

theorem rerun_noop_witness:
  "single_upload \<noteq> [] \<and> \<not> processed fresh \<and> run_items demo_env single_upload fresh \<noteq> []
   \<and> coordinator demo_env 2 single_upload [0] (fst (coordinator demo_env 2 single_upload [0] fresh))
        = (fst (coordinator demo_env 2 single_upload [0] fresh), [])"
proof -
  have i: "run_items demo_env single_upload fresh \<noteq> []"
    by (simp add: demo_single_items)
  from rerun_noop [OF demo_guard(2,3) i, of demo_env 2 "[0]" 2 "[0]"] demo_guard(2,3) i
  show ?thesis by simp
qed

text \<open>
  Claim C6 as stated fails when the first run dispatched no page: \<open>processed\<close> stays
  unset, and the second invocation with the same input goes through the whole run again,
  rasterizing the document and showing its failure a second time.
\<close>

theorem rerun_counterexample:
  "bad_upload \<noteq> []
   \<and> map fst bad_upload = map fst (uploaded_files (fst (coordinator demo_env 2 bad_upload [] fresh)))
   \<and> snd (coordinator demo_env 2 bad_upload [] (fst (coordinator demo_env 2 bad_upload [] fresh)))
       = [Info ''Processing PDFs in parallel...'', ProgressBar 0,
          Error ''Failed to process bad.pdf: Unable to get page count.'',
          ProgressText ''Processing complete!'']"
  by (simp add: demo_bad_run) (simp add: eval_defs bad_upload_def)

subsection \<open>The result group of a document\<close>

lemma results_pages:
  assumes "uploaded \<noteq> []" "\<not> processed s"
    and "completion_order (length (run_items ev uploaded s)) sched"
    and "nm \<in> set (rasterized_names ev (stored_files uploaded s))"
  shows "\<exists>rs. map_of (file_results (fst (coordinator ev workers uploaded sched s))) nm = Some rs
     \<and> map result_page rs =
         sort (map (page_index_at (run_items ev uploaded s))
           (filter (\<lambda>j. fst (run_items ev uploaded s ! j) = nm
                        \<and> returns ev (run_items ev uploaded s) j)
              [0..<length (run_items ev uploaded s)]))"
  using run_results [OF assms(1,2), of ev workers sched nm] assms(4)
    sorted_collected_pages [OF assms(3), of ev nm]
  by simp

lemma named_positions:
  assumes "distinct (map fst files)" "(nm, data) \<in> set files"
    and "convert_from_bytes ev data = Inr pages"
  shows "map (page_index_at (work_items ev files))
           (filter (\<lambda>j. fst (work_items ev files ! j) = nm) [0..<length (work_items ev files)])
         = [1..<Suc (length pages)]"
proof -
  have "map (page_index_at (work_items ev files))
           (filter (\<lambda>j. fst (work_items ev files ! j) = nm) [0..<length (work_items ev files)])
        = map (snd \<circ> snd) (filter (\<lambda>x. fst x = nm) (work_items ev files))"
    using filter_positions [of "snd \<circ> snd" "work_items ev files" "\<lambda>x. fst x = nm"]
    by (simp add: page_index_at_def [abs_def] comp_def)
  then show ?thesis by (simp only: named_items [OF assms])
qed

lemma ordered_results:
  assumes "uploaded \<noteq> []" "\<not> processed s"
    and "completion_order (length (run_items ev uploaded s)) sched"
    and "distinct (map fst (stored_files uploaded s))"
    and "(nm, data) \<in> set (stored_files uploaded s)"
    and "convert_from_bytes ev data = Inr pages"
  shows "\<exists>rs. map_of (file_results (fst (coordinator ev workers uploaded sched s))) nm = Some rs
     \<and> sorted_wrt (<) (map result_page rs)
     \<and> set (map result_page rs) \<subseteq> {1..length pages}
     \<and> ((\<forall>j < length (run_items ev uploaded s).
            fst (run_items ev uploaded s ! j) = nm \<longrightarrow> returns ev (run_items ev uploaded s) j)
          \<longrightarrow> map result_page rs = [1..<Suc (length pages)])"
proof -
  let ?ap = "run_items ev uploaded s"
  let ?named = "filter (\<lambda>j. fst (?ap ! j) = nm) [0..<length ?ap]"
  let ?L = "map (page_index_at ?ap)
              (filter (\<lambda>j. fst (?ap ! j) = nm \<and> returns ev ?ap j) [0..<length ?ap])"
  have rn: "nm \<in> set (rasterized_names ev (stored_files uploaded s))"
    using assms(5,6) by (force simp: rasterized_names_def rasterizes_def)
  from results_pages [OF assms(1-3) rn] obtain rs where
    rs: "map_of (file_results (fst (coordinator ev workers uploaded sched s))) nm = Some rs"
    and pg: "map result_page rs = sort ?L"
    by blast
  have M: "map (page_index_at ?ap) ?named = [1..<Suc (length pages)]"
    unfolding run_items_def by (rule named_positions [OF assms(4-6)])
  have L: "?L = map (page_index_at ?ap) (filter (returns ev ?ap) ?named)"
    by (simp add: conj_commute)
  have "sorted_wrt (<) (map (page_index_at ?ap) ?named)"
    unfolding M by (rule sorted_wrt_upt)
  then have "sorted_wrt (\<lambda>i j. page_index_at ?ap i < page_index_at ?ap j) ?named"
    by (simp add: sorted_wrt_map)
  then have "sorted_wrt (\<lambda>i j. page_index_at ?ap i < page_index_at ?ap j)
               (filter (returns ev ?ap) ?named)"
    by (rule sorted_wrt_filter)
  then have strict: "sorted_wrt (<) ?L"
    unfolding L by (simp add: sorted_wrt_map)
  then have same: "sort ?L = ?L"
    by (simp add: sorted_sort_id strict_sorted_imp_sorted)
  have "set ?L \<subseteq> set (map (page_index_at ?ap) ?named)"
    unfolding L by auto
  then have within: "set ?L \<subseteq> {1..length pages}"
    unfolding M by auto
  have full: "?L = [1..<Suc (length pages)]"
    if "\<forall>j < length ?ap. fst (?ap ! j) = nm \<longrightarrow> returns ev ?ap j"
  proof -
    have "filter (\<lambda>j. fst (?ap ! j) = nm \<and> returns ev ?ap j) [0..<length ?ap] = ?named"
      by (rule filter_cong) (use that in auto)
    then show ?thesis using M by simp
  qed
  show ?thesis
    apply (rule exI [of _ rs])
    using rs pg same strict within full by simp
qed

lemma run_frame:
  assumes "uploaded \<noteq> []" "\<not> processed s"
  shows "file_times (fst (coordinator ev workers uploaded sched s))
           = file_times (after_rasterize ev uploaded s)
       \<and> debug_info (fst (coordinator ev workers uploaded sched s))
           = debug_info (after_rasterize ev uploaded s)
       \<and> map fst (file_results (fst (coordinator ev workers uploaded sched s)))
           = map fst (file_results (after_rasterize ev uploaded s))"
proof (cases "run_items ev uploaded s = []")
  case True
  then show ?thesis by (simp add: coordinator_idle [OF assms True])
next
  case False
  then have tp: "length (run_items ev uploaded s) \<noteq> 0" by simp
  from coordinator_dispatch [OF assms False] obtain sh where
    "fst (coordinator ev workers uploaded sched s) =
           (cstate ev (run_items ev uploaded s) (length (run_items ev uploaded s)) sched
              (0, after_rasterize ev uploaded s, sh))
           \<lparr>file_results := sort_results (file_results
               (cstate ev (run_items ev uploaded s) (length (run_items ev uploaded s)) sched
                  (0, after_rasterize ev uploaded s, sh))),
             processed := True\<rparr>"
    by blast
  then show ?thesis
    using collect_loop_frame [where ap = "run_items ev uploaded s"
        and s = "after_rasterize ev uploaded s" and ev = ev
        and tp = "length (run_items ev uploaded s)" and sched = sched and pp = 0 and sh = sh,
        OF tp keys_cover_after_rasterize]
    by (simp add: keys_sort_results)
qed

text \<open>
  Claim C2, amended. In a run whose document names are distinct, for every document that
  rasterized and every completion order of the page tasks, the document's result sequence
  after the run is strictly increasing in page index, without duplicates, with indices
  among \<open>1..page_count\<close>; when none of the document's page tasks raised it has no gaps:
  it is one entry per page, with the indices \<open>1..page_count\<close> in order.
\<close>

theorem page_order_restored:
  assumes "uploaded \<noteq> []" "\<not> processed s"
    and "completion_order (length (run_items ev uploaded s)) sched"
    and "distinct (map fst (stored_files uploaded s))"
    and "(nm, data) \<in> set (stored_files uploaded s)"
    and "convert_from_bytes ev data = Inr pages"
  shows "\<exists>rs. map_of (file_results (fst (coordinator ev workers uploaded sched s))) nm = Some rs
     \<and> sorted_wrt (<) (map result_page rs)
     \<and> set (map result_page rs) \<subseteq> {1..length pages}
     \<and> ((\<forall>j < length (run_items ev uploaded s).
            fst (run_items ev uploaded s ! j) = nm \<longrightarrow> returns ev (run_items ev uploaded s) j)
          \<longrightarrow> map result_page rs = [1..<Suc (length pages)])"
  by (rule ordered_results [OF assms])

lemma demo_mixed_files:
  "distinct (map fst (stored_files mixed_upload fresh))"
  "(''a.pdf'', [7, 13, 9]) \<in> set (stored_files mixed_upload fresh)"
  "(''bad.pdf'', []) \<in> set (stored_files mixed_upload fresh)"
  "(''b.pdf'', [1, 2]) \<in> set (stored_files mixed_upload fresh)"
  unfolding demo_guard(4) by (simp_all add: mixed_upload_def)

lemma demo_convert:
  "convert_from_bytes demo_env [7, 13, 9] = Inr [7, 13, 9]"
  "convert_from_bytes demo_env [1, 2] = Inr [1, 2]"
  "convert_from_bytes demo_env [] = Inl ''Unable to get page count.''"
  by (simp_all add: demo_env_simps)

lemma demo_b_returns:
  "\<forall>j < length (run_items demo_env mixed_upload fresh).
     fst (run_items demo_env mixed_upload fresh ! j) = ''b.pdf''
       \<longrightarrow> returns demo_env (run_items demo_env mixed_upload fresh) j"
proof (intro allI impI)
  fix j
  assume "j < length (run_items demo_env mixed_upload fresh)"
  then have "j = 0 \<or> j = 1 \<or> j = 2 \<or> j = 3 \<or> j = 4"
    by (simp add: demo_items) arith
  moreover assume "fst (run_items demo_env mixed_upload fresh ! j) = ''b.pdf''"
  ultimately show "returns demo_env (run_items demo_env mixed_upload fresh) j"
    by (auto simp: returns_save demo_items demo_env_simps answering_simps)
qed

theorem page_order_restored_witness:
  "mixed_upload \<noteq> [] \<and> \<not> processed fresh
   \<and> completion_order (length (run_items demo_env mixed_upload fresh)) mixed_order
   \<and> distinct (map fst (stored_files mixed_upload fresh))
   \<and> (''b.pdf'', [1, 2]) \<in> set (stored_files mixed_upload fresh)
   \<and> convert_from_bytes demo_env [1, 2] = Inr [1, 2]
   \<and> map result_page
        (the (map_of (file_results (fst (coordinator demo_env 2 mixed_upload mixed_order fresh)))
                ''b.pdf'')) = [1, 2]"
proof -
  from page_order_restored [OF demo_guard(1,3) demo_order(1) demo_mixed_files(1,4)
      demo_convert(2), of 2] demo_b_returns
  obtain rs where
    "map_of (file_results (fst (coordinator demo_env 2 mixed_upload mixed_order fresh))) ''b.pdf''
       = Some rs"
    and "map result_page rs = [1..<Suc (length [1::nat, 2])]"
    by blast
  then have "map result_page
        (the (map_of (file_results (fst (coordinator demo_env 2 mixed_upload mixed_order fresh)))
                ''b.pdf'')) = [1, 2]"
    by (simp add: upt_rec)
  with demo_guard(1,3) demo_order(1) demo_mixed_files(1,4) demo_convert(2) show ?thesis
    by blast
qed

text \<open>
  Claim C2 as stated fails when a page task raises: \<open>a.pdf\<close> rasterized into three pages,
  the task of its second page raised, and its result sequence is \<open>[1, 3]\<close>, with a gap.
\<close>

theorem page_gap_counterexample:
  "mixed_upload \<noteq> [] \<and> \<not> processed fresh
   \<and> completion_order (length (run_items demo_env mixed_upload fresh)) mixed_order
   \<and> distinct (map fst (stored_files mixed_upload fresh))
   \<and> (''a.pdf'', [7, 13, 9]) \<in> set (stored_files mixed_upload fresh)
   \<and> convert_from_bytes demo_env [7, 13, 9] = Inr [7, 13, 9]
   \<and> map result_page
        (the (map_of (file_results (fst (coordinator demo_env 2 mixed_upload mixed_order fresh)))
                ''a.pdf'')) = [1, 3]"
  using demo_guard(1,3) demo_order(1) demo_mixed_files(1,2) demo_convert(1)
  by (simp add: demo_mixed_fresh)

subsection \<open>Documents that fail to rasterize\<close>

lemma collect_future_shown:
  "\<exists>more. snd (snd (collect_future ev ap tp j (pp, s, sh))) = sh @ more"
  by (auto simp: collect_future_def Let_def split: prod.splits sum.splits option.splits)

lemma collect_loop_shown:
  "set sh \<subseteq> set (cshown ev ap tp sched (pp, s, sh))"
proof (induction sched arbitrary: pp s sh)
  case Nil
  then show ?case by simp
next
  case (Cons j sched)
  obtain pp' s' sh' where st: "collect_future ev ap tp j (pp, s, sh) = (pp', s', sh')"
    by (metis prod_cases3)
  with collect_future_shown [of ev ap tp j pp s sh] obtain more where "sh' = sh @ more"
    by auto
  then have "set sh \<subseteq> set sh'" by simp
  with Cons.IH [where pp = pp' and s = s' and sh = sh'] st show ?case by auto
qed

lemma coordinator_shows_notices:
  assumes "uploaded \<noteq> []" "\<not> processed s"
    and "f \<in> set (stored_files uploaded s)" "\<not> rasterizes ev f"
  shows "rasterization_notice ev f \<in> set (snd (coordinator ev workers uploaded sched s))"
proof -
  obtain ap tp s3 sh where r: "rasterize_loop ev 0 (stored_files uploaded s)
             ([], 0, start_state uploaded s, start_shown) = (ap, tp, s3, sh)"
    by (metis prod_cases4)
  from rasterize_loop_shown [of ev 0 "stored_files uploaded s" "[]" 0 "start_state uploaded s" start_shown] r
  have "sh = start_shown @ map (rasterization_notice ev)
              (filter (\<lambda>f. \<not> rasterizes ev f) (stored_files uploaded s))" by simp
  with assms(3,4) have n: "rasterization_notice ev f \<in> set sh" by simp
  show ?thesis
  proof (cases "ap = []")
    case True
    with r n show ?thesis by (simp add: coordinator_unfold [OF assms(1,2)])
  next
    case False
    obtain pp4 s4 sh4 where c: "collect_loop ev ap tp sched
        (0, s3, sh @ [dispatch_text tp workers]) = (pp4, s4, sh4)"
      by (metis prod_cases3)
    from collect_loop_shown [where sh = "sh @ [dispatch_text tp workers]" and ev = ev
        and ap = ap and tp = tp and sched = sched and pp = 0 and s = s3] c n
    have "rasterization_notice ev f \<in> set sh4" by auto
    with r c False show ?thesis by (simp add: coordinator_unfold [OF assms(1,2)])
  qed
qed

lemma failing_not_rasterized:
  assumes "distinct (map fst files)" "(nm, data) \<in> set files" "\<not> rasterizes ev (nm, data)"
  shows "nm \<notin> set (rasterized_names ev files)"
proof
  assume "nm \<in> set (rasterized_names ev files)"
  then obtain d where d: "(nm, d) \<in> set files" "rasterizes ev (nm, d)"
    by (auto simp: rasterized_names_def)
  from assms(1,2) d(1) have "d = data" by (metis eq_key_imp_eq_value)
  with d(2) assms(3) show False by simp
qed

lemma debug_rasterized_names:
  "map_of (rev (map (debug_of ev) (filter (rasterizes ev) files))) nm = None
     \<longleftrightarrow> nm \<notin> set (rasterized_names ev files)"
  by (simp add: map_of_eq_None_iff rasterized_names_def image_image)

lemma run_unrasterized:
  assumes "uploaded \<noteq> []" "\<not> processed s"
    and "nm \<notin> set (rasterized_names ev (stored_files uploaded s))"
  shows "map_of (file_results (fst (coordinator ev workers uploaded sched s))) nm = None
       \<and> map_of (file_times (fst (coordinator ev workers uploaded sched s))) nm = None
       \<and> map_of (debug_info (fst (coordinator ev workers uploaded sched s))) nm = None
       \<and> filter (\<lambda>x. fst x = nm) (run_items ev uploaded s) = []"
proof -
  have t: "map_of (file_times (after_rasterize ev uploaded s)) nm = None"
    unfolding after_rasterize_def using rasterize_loop_times [OF assms(3)] by simp
  have d: "map_of (debug_info (after_rasterize ev uploaded s)) nm = None"
    unfolding after_rasterize_def using assms(3)
    by (simp add: rasterize_loop_debug debug_rasterized_names)
  have i: "filter (\<lambda>x. fst x = nm) (run_items ev uploaded s) = []"
    using assms(3) by (auto simp: filter_empty_conv run_items_def dest: work_items_names)
  from run_results [OF assms(1,2), of ev workers sched nm] assms(3) t d i
    run_frame [OF assms(1,2), of ev workers sched]
  show ?thesis by simp
qed

lemma work_items_without:
  "\<forall>f \<in> set files. fst f = nm \<longrightarrow> \<not> rasterizes ev f \<Longrightarrow>
   work_items ev (filter (\<lambda>f. fst f \<noteq> nm) files) = work_items ev files"
  by (induction files) (auto simp: work_items_def file_items_fails)

lemma rasterized_names_without:
  "nm' \<noteq> nm \<Longrightarrow>
   nm' \<in> set (rasterized_names ev (filter (\<lambda>f. fst f \<noteq> nm) files))
     \<longleftrightarrow> nm' \<in> set (rasterized_names ev files)"
  by (auto simp: rasterized_names_def)

lemma run_without:
  assumes "uploaded \<noteq> []" "\<not> processed s"
    and "nm \<notin> set (rasterized_names ev (stored_files uploaded s))"
    and "uploaded2 \<noteq> []" "\<not> processed s2"
    and "stored_files uploaded2 s2 = filter (\<lambda>f. fst f \<noteq> nm) (stored_files uploaded s)"
    and "nm' \<noteq> nm"
  shows "map_of (file_results (fst (coordinator ev workers uploaded sched s))) nm'
       = map_of (file_results (fst (coordinator ev workers uploaded2 sched s2))) nm'"
proof -
  have "\<forall>f \<in> set (stored_files uploaded s). fst f = nm \<longrightarrow> \<not> rasterizes ev f"
    using assms(3) by (auto simp: rasterized_names_def)
  then have "run_items ev uploaded2 s2 = run_items ev uploaded s"
    unfolding run_items_def assms(6) by (rule work_items_without)
  then show ?thesis
    using run_results [OF assms(1,2), of ev workers sched nm']
      run_results [OF assms(4,5), of ev workers sched nm']
      rasterized_names_without [OF assms(7), of ev "stored_files uploaded s"]
    by (simp add: assms(6))
qed

text \<open>
  Claim C7, amended. In a run whose document names are distinct, a document whose bytes
  fail to rasterize is shown as an error naming it, contributes no work item, and has no
  entry in the results, the timings or the debug info. The run is not aborted: every other
  document that rasterized has its ordered result sequence, strictly increasing in page
  index within \<open>1..page_count\<close>, and complete when none of its own page tasks raised;
  and the result group of every other document is the one of the same run without the
  failing document.
\<close>

theorem rasterization_failure_isolated:
  assumes "uploaded \<noteq> []" "\<not> processed s"
    and "completion_order (length (run_items ev uploaded s)) sched"
    and "distinct (map fst (stored_files uploaded s))"
    and "(nm, data) \<in> set (stored_files uploaded s)"
    and "convert_from_bytes ev data = Inl e"
  shows "Error (''Failed to process '' @ nm @ '': '' @ e)
           \<in> set (snd (coordinator ev workers uploaded sched s))
     \<and> map_of (file_results (fst (coordinator ev workers uploaded sched s))) nm = None
     \<and> map_of (file_times (fst (coordinator ev workers uploaded sched s))) nm = None
     \<and> map_of (debug_info (fst (coordinator ev workers uploaded sched s))) nm = None
     \<and> filter (\<lambda>x. fst x = nm) (run_items ev uploaded s) = []
     \<and> (\<forall>nm' data' pages'.
           (nm', data') \<in> set (stored_files uploaded s) \<and> convert_from_bytes ev data' = Inr pages'
           \<longrightarrow> (\<exists>rs. map_of (file_results (fst (coordinator ev workers uploaded sched s))) nm'
                        = Some rs
                  \<and> sorted_wrt (<) (map result_page rs)
                  \<and> set (map result_page rs) \<subseteq> {1..length pages'}
                  \<and> ((\<forall>j < length (run_items ev uploaded s).
                         fst (run_items ev uploaded s ! j) = nm'
                           \<longrightarrow> returns ev (run_items ev uploaded s) j)
                       \<longrightarrow> map result_page rs = [1..<Suc (length pages')])))
     \<and> (\<forall>uploaded2 s2 nm'.
           uploaded2 \<noteq> [] \<and> \<not> processed s2
           \<and> stored_files uploaded2 s2 = filter (\<lambda>f. fst f \<noteq> nm) (stored_files uploaded s)
           \<and> nm' \<noteq> nm
           \<longrightarrow> map_of (file_results (fst (coordinator ev workers uploaded sched s))) nm'
               = map_of (file_results (fst (coordinator ev workers uploaded2 sched s2))) nm')"
proof -
  have fails: "\<not> rasterizes ev (nm, data)"
    using assms(6) by (simp add: rasterizes_def)
  have notice: "rasterization_notice ev (nm, data) = Error (''Failed to process '' @ nm @ '': '' @ e)"
    using assms(6) by (simp add: rasterization_notice_def)
  have out: "nm \<notin> set (rasterized_names ev (stored_files uploaded s))"
    by (rule failing_not_rasterized [OF assms(4,5) fails])
  from coordinator_shows_notices [OF assms(1,2,5) fails, of workers sched] notice
  have shown: "Error (''Failed to process '' @ nm @ '': '' @ e)
           \<in> set (snd (coordinator ev workers uploaded sched s))"
    by simp
  note gone = run_unrasterized [OF assms(1,2) out, of workers sched]
  have others: "\<exists>rs. map_of (file_results (fst (coordinator ev workers uploaded sched s))) nm'
                        = Some rs
                  \<and> sorted_wrt (<) (map result_page rs)
                  \<and> set (map result_page rs) \<subseteq> {1..length pages'}
                  \<and> ((\<forall>j < length (run_items ev uploaded s).
                         fst (run_items ev uploaded s ! j) = nm'
                           \<longrightarrow> returns ev (run_items ev uploaded s) j)
                       \<longrightarrow> map result_page rs = [1..<Suc (length pages')])"
    if "(nm', data') \<in> set (stored_files uploaded s)" "convert_from_bytes ev data' = Inr pages'"
    for nm' data' pages'
    by (rule ordered_results [OF assms(1-4) that])
  have same: "map_of (file_results (fst (coordinator ev workers uploaded sched s))) nm'
               = map_of (file_results (fst (coordinator ev workers uploaded2 sched s2))) nm'"
    if "uploaded2 \<noteq> []" "\<not> processed s2"
      "stored_files uploaded2 s2 = filter (\<lambda>f. fst f \<noteq> nm) (stored_files uploaded s)"
      "nm' \<noteq> nm"
    for uploaded2 s2 nm'
    by (rule run_without [OF assms(1,2) out that])
  note g1 = gone [THEN conjunct1] and g2 = gone [THEN conjunct2, THEN conjunct1]
    and g3 = gone [THEN conjunct2, THEN conjunct2, THEN conjunct1]
    and g4 = gone [THEN conjunct2, THEN conjunct2, THEN conjunct2]
  show ?thesis
  proof (intro conjI allI impI)
    fix nm' data' pages'
    assume "(nm', data') \<in> set (stored_files uploaded s)
              \<and> convert_from_bytes ev data' = Inr pages'"
    then show "\<exists>rs. map_of (file_results (fst (coordinator ev workers uploaded sched s))) nm'
                        = Some rs
                  \<and> sorted_wrt (<) (map result_page rs)
                  \<and> set (map result_page rs) \<subseteq> {1..length pages'}
                  \<and> ((\<forall>j < length (run_items ev uploaded s).
                         fst (run_items ev uploaded s ! j) = nm'
                           \<longrightarrow> returns ev (run_items ev uploaded s) j)
                       \<longrightarrow> map result_page rs = [1..<Suc (length pages')])"
      using others [of nm' data' pages'] by (elim conjE) simp
  next
    fix uploaded2 :: "(string \<times> bytes) list" and s2 :: "'a session_state" and nm'
    assume "uploaded2 \<noteq> [] \<and> \<not> processed s2
           \<and> stored_files uploaded2 s2 = filter (\<lambda>f. fst f \<noteq> nm) (stored_files uploaded s)
           \<and> nm' \<noteq> nm"
    then show "map_of (file_results (fst (coordinator ev workers uploaded sched s))) nm'
               = map_of (file_results (fst (coordinator ev workers uploaded2 sched s2))) nm'"
      by (elim conjE) (rule same)
  qed (fact shown g1 g2 g3 g4)+
qed

lemma demo_without:
  "without_bad_upload \<noteq> []"
  "stored_files without_bad_upload fresh
     = filter (\<lambda>f. fst f \<noteq> ''bad.pdf'') (stored_files mixed_upload fresh)"
  unfolding demo_guard(4)
  by (simp_all add: without_bad_upload_def mixed_upload_def stored_files_def fresh_def
      initial_state_def)

theorem rasterization_failure_isolated_witness:
  "mixed_upload \<noteq> [] \<and> \<not> processed fresh
   \<and> completion_order (length (run_items demo_env mixed_upload fresh)) mixed_order
   \<and> distinct (map fst (stored_files mixed_upload fresh))
   \<and> (''bad.pdf'', []) \<in> set (stored_files mixed_upload fresh)
   \<and> convert_from_bytes demo_env [] = Inl ''Unable to get page count.''
   \<and> Error ''Failed to process bad.pdf: Unable to get page count.''
        \<in> set (snd (coordinator demo_env 2 mixed_upload mixed_order fresh))
   \<and> map_of (file_results (fst (coordinator demo_env 2 mixed_upload mixed_order fresh)))
        ''bad.pdf'' = None
   \<and> map_of (file_times (fst (coordinator demo_env 2 mixed_upload mixed_order fresh)))
        ''bad.pdf'' = None
   \<and> map_of (debug_info (fst (coordinator demo_env 2 mixed_upload mixed_order fresh)))
        ''bad.pdf'' = None
   \<and> (''b.pdf'', [1, 2]) \<in> set (stored_files mixed_upload fresh)
   \<and> convert_from_bytes demo_env [1, 2] = Inr [1, 2]
   \<and> map result_page
        (the (map_of (file_results (fst (coordinator demo_env 2 mixed_upload mixed_order fresh)))
                ''b.pdf'')) = [1, 2]
   \<and> without_bad_upload \<noteq> []
   \<and> stored_files without_bad_upload fresh
        = filter (\<lambda>f. fst f \<noteq> ''bad.pdf'') (stored_files mixed_upload fresh)
   \<and> map_of (file_results (fst (coordinator demo_env 2 mixed_upload mixed_order fresh))) ''b.pdf''
        = map_of (file_results (fst (coordinator demo_env 2 without_bad_upload mixed_order fresh)))
            ''b.pdf''"
proof -
  note t = rasterization_failure_isolated [OF demo_guard(1,3) demo_order(1)
      demo_mixed_files(1,3) demo_convert(3), of 2]
  note shown = t [THEN conjunct1]
    and g1 = t [THEN conjunct2, THEN conjunct1]
    and g2 = t [THEN conjunct2, THEN conjunct2, THEN conjunct1]
    and g3 = t [THEN conjunct2, THEN conjunct2, THEN conjunct2, THEN conjunct1]
    and others = t [THEN conjunct2, THEN conjunct2, THEN conjunct2, THEN conjunct2,
        THEN conjunct2, THEN conjunct1, rule_format]
    and same = t [THEN conjunct2, THEN conjunct2, THEN conjunct2, THEN conjunct2,
        THEN conjunct2, THEN conjunct2, rule_format]
  from shown have sh: "Error ''Failed to process bad.pdf: Unable to get page count.''
        \<in> set (snd (coordinator demo_env 2 mixed_upload mixed_order fresh))"
    by simp
  from others [OF conjI [OF demo_mixed_files(4) demo_convert(2)]] obtain rs where
    rs: "map_of (file_results (fst (coordinator demo_env 2 mixed_upload mixed_order fresh))) ''b.pdf''
       = Some rs"
    and full: "(\<forall>j < length (run_items demo_env mixed_upload fresh).
                   fst (run_items demo_env mixed_upload fresh ! j) = ''b.pdf''
                     \<longrightarrow> returns demo_env (run_items demo_env mixed_upload fresh) j)
                 \<longrightarrow> map result_page rs = [1..<Suc (length [1::nat, 2])]"
    by (elim exE conjE)
  from full demo_b_returns have "map result_page rs = [1..<Suc (length [1::nat, 2])]"
    by (rule mp)
  with rs have b: "map result_page
        (the (map_of (file_results (fst (coordinator demo_env 2 mixed_upload mixed_order fresh)))
                ''b.pdf'')) = [1, 2]"
    by (simp add: upt_rec)
  have ne: "''b.pdf'' \<noteq> ''bad.pdf''" by simp
  note sm = same [OF conjI [OF demo_without(1) conjI [OF demo_guard(3) conjI [OF demo_without(2) ne]]]]
  show ?thesis
    by (intro conjI)
       (fact demo_guard(1,3) demo_order(1) demo_mixed_files(1,3,4) demo_convert(2,3)
          sh g1 g2 g3 b demo_without sm)+
qed

text \<open>
  Claim C7 as stated fails for the other documents' completeness: \<open>bad.pdf\<close> fails to
  rasterize, the names are distinct, and \<open>a.pdf\<close>, which rasterized into three pages,
  does not have its full result set: the task of its second page raised, and its
  sequence is \<open>[1, 3]\<close>.
\<close>

theorem other_document_incomplete_counterexample:
  "mixed_upload \<noteq> [] \<and> \<not> processed fresh
   \<and> completion_order (length (run_items demo_env mixed_upload fresh)) mixed_order
   \<and> distinct (map fst (stored_files mixed_upload fresh))
   \<and> (''bad.pdf'', []) \<in> set (stored_files mixed_upload fresh)
   \<and> convert_from_bytes demo_env [] = Inl ''Unable to get page count.''
   \<and> (''a.pdf'', [7, 13, 9]) \<in> set (stored_files mixed_upload fresh)
   \<and> convert_from_bytes demo_env [7, 13, 9] = Inr [7, 13, 9]
   \<and> map result_page
        (the (map_of (file_results (fst (coordinator demo_env 2 mixed_upload mixed_order fresh)))
                ''a.pdf'')) = [1, 3]"
  using demo_guard(1,3) demo_order(1) demo_mixed_files(1,2,3) demo_convert(1,3)
  by (simp add: demo_mixed_fresh)

text \<open>
  The names must be distinct for the failing document to leave no entry: when it shares
  its name with a document that rasterized, the results and the debug entry of that
  document stand under the name of the failing one.
\<close>

lemma failing_document_shares_name:
  "(''a.pdf'', []) \<in> set (stored_files shared_name_upload fresh)
   \<and> convert_from_bytes demo_env [] = Inl ''Unable to get page count.''
   \<and> map result_page
        (the (map_of (file_results (fst (coordinator demo_env 2 shared_name_upload [1, 0] fresh)))
                ''a.pdf'')) = [1, 2]
   \<and> map_of (debug_info (fst (coordinator demo_env 2 shared_name_upload [1, 0] fresh))) ''a.pdf''
       = Some \<lparr>pdf_size = 2, page_count = 2\<rparr>"
  by (simp add: eval_defs shared_name_upload_def fresh_def stored_files_def)

subsection \<open>Documents that share a name\<close>

lemma file_items_doc_pages: "map (snd \<circ> snd) (file_items ev f) = doc_pages ev f"
proof (cases "convert_from_bytes ev (snd f)")
  case (Inl e)
  then show ?thesis by (simp add: file_items_def doc_pages_def)
next
  case (Inr pages)
  then show ?thesis using file_items_pages [OF Inr] by (simp add: doc_pages_def)
qed

lemma named_items_all:
  "map (snd \<circ> snd) (filter (\<lambda>x. fst x = nm) (work_items ev files))
     = concat (map (doc_pages ev) (filter (\<lambda>f. fst f = nm) files))"
proof (induction files)
  case Nil
  then show ?case by (simp add: work_items_def)
next
  case (Cons f files)
  have own: "filter (\<lambda>x. fst x = nm) (file_items ev f) =
             (if fst f = nm then file_items ev f else [])"
    by (auto simp: filter_empty_conv filter_id_conv dest: file_items_names)
  have "map (snd \<circ> snd) (filter (\<lambda>x. fst x = nm) (work_items ev (f # files))) =
        map (snd \<circ> snd) (filter (\<lambda>x. fst x = nm) (file_items ev f))
        @ map (snd \<circ> snd) (filter (\<lambda>x. fst x = nm) (work_items ev files))"
    by (simp add: work_items_def)
  also have "\<dots> = (if fst f = nm then doc_pages ev f else [])
        @ concat (map (doc_pages ev) (filter (\<lambda>f. fst f = nm) files))"
    unfolding own Cons.IH using file_items_doc_pages [of ev f] by simp
  finally show ?case by (cases "fst f = nm") (simp_all add: comp_def)
qed

lemma debug_last:
  "map_of (rev (map (debug_of ev) fs)) nm =
     (if filter (\<lambda>f. fst f = nm) fs = [] then None
      else Some (snd (debug_of ev (last (filter (\<lambda>f. fst f = nm) fs)))))"
proof (induction fs)
  case Nil
  then show ?case by simp
next
  case (Cons f fs)
  have "map_of (rev (map (debug_of ev) (f # fs))) nm =
        (map_of [debug_of ev f] ++ map_of (rev (map (debug_of ev) fs))) nm"
    by (simp only: list.map rev.simps map_of_append)
  also have "\<dots> = (case map_of (rev (map (debug_of ev) fs)) nm of
                      None \<Rightarrow> (if fst f = nm then Some (snd (debug_of ev f)) else None)
                    | Some y \<Rightarrow> Some y)"
    by (cases "debug_of ev f")
       (auto simp: map_add_def split: option.splits dest: arg_cong [where f = fst])
  finally show ?case using Cons.IH by simp
qed

lemma run_keys_distinct:
  assumes "uploaded \<noteq> []" "\<not> processed s"
  shows "distinct (map fst (file_results (fst (coordinator ev workers uploaded sched s))))"
proof -
  have "distinct (map fst (file_results (after_rasterize ev uploaded s)))"
    unfolding after_rasterize_def by (rule rasterize_loop_distinct) simp
  with run_frame [OF assms, of ev workers sched] show ?thesis by simp
qed

lemma run_debug:
  assumes "uploaded \<noteq> []" "\<not> processed s"
    and "nm \<in> set (rasterized_names ev (stored_files uploaded s))"
  shows "map_of (debug_info (fst (coordinator ev workers uploaded sched s))) nm =
     Some (snd (debug_of ev (last (filter (\<lambda>f. fst f = nm)
        (filter (rasterizes ev) (stored_files uploaded s))))))"
proof -
  from assms(3) have "filter (\<lambda>f. fst f = nm) (filter (rasterizes ev) (stored_files uploaded s)) \<noteq> []"
    by (auto simp: rasterized_names_def filter_empty_conv)
  then show ?thesis
    using run_frame [OF assms(1,2), of ev workers sched]
    by (simp add: after_rasterize_def rasterize_loop_debug debug_last)
qed

lemma run_named_pages:
  assumes "uploaded \<noteq> []" "\<not> processed s"
    and "completion_order (length (run_items ev uploaded s)) sched"
    and "nm \<in> set (rasterized_names ev (stored_files uploaded s))"
  shows "\<exists>rs. map_of (file_results (fst (coordinator ev workers uploaded sched s))) nm = Some rs
     \<and> sorted (map result_page rs)
     \<and> ((\<forall>j < length (run_items ev uploaded s).
            fst (run_items ev uploaded s ! j) = nm \<longrightarrow> returns ev (run_items ev uploaded s) j)
          \<longrightarrow> map result_page rs =
                sort (concat (map (doc_pages ev)
                  (filter (\<lambda>f. fst f = nm) (stored_files uploaded s)))))"
proof -
  let ?ap = "run_items ev uploaded s"
  let ?L = "map (page_index_at ?ap)
              (filter (\<lambda>j. fst (?ap ! j) = nm \<and> returns ev ?ap j) [0..<length ?ap])"
  from results_pages [OF assms] obtain rs where
    rs: "map_of (file_results (fst (coordinator ev workers uploaded sched s))) nm = Some rs"
    and pg: "map result_page rs = sort ?L"
    by blast
  have full: "?L = concat (map (doc_pages ev) (filter (\<lambda>f. fst f = nm) (stored_files uploaded s)))"
    if "\<forall>j < length ?ap. fst (?ap ! j) = nm \<longrightarrow> returns ev ?ap j"
  proof -
    have "filter (\<lambda>j. fst (?ap ! j) = nm \<and> returns ev ?ap j) [0..<length ?ap]
          = filter (\<lambda>j. fst (?ap ! j) = nm) [0..<length ?ap]"
      by (rule filter_cong) (use that in auto)
    then have "?L = map (snd \<circ> snd) (filter (\<lambda>x. fst x = nm) ?ap)"
      using filter_positions [of "snd \<circ> snd" ?ap "\<lambda>x. fst x = nm"]
      by (simp add: page_index_at_def [abs_def] comp_def)
    then show ?thesis by (simp only: run_items_def named_items_all)
  qed
  show ?thesis
    apply (rule exI [of _ rs])
    using rs pg full by simp
qed

text \<open>
  Claim C10. The results are keyed by document name alone. In every run, the names of the
  result groups are distinct, so documents sharing a name share one group; each
  rasterization of such a document leaves the group empty before the dispatch and the
  debug entry of the name is the byte size and page count of the last of them that
  rasterized; the group then receives the page results of the work items of all of them:
  it is sorted by page index and, when none of their page tasks raised, its page indices
  are the sorted concatenation of \<open>1..page_count\<close> of every document of that name.
\<close>

theorem same_name_single_group:
  assumes "uploaded \<noteq> []" "\<not> processed s"
    and "completion_order (length (run_items ev uploaded s)) sched"
  shows "distinct (map fst (file_results (fst (coordinator ev workers uploaded sched s))))
     \<and> (nm \<in> set (rasterized_names ev (stored_files uploaded s)) \<longrightarrow>
          map_of (file_results (after_rasterize ev uploaded s)) nm = Some []
        \<and> map_of (debug_info (fst (coordinator ev workers uploaded sched s))) nm =
            Some (snd (debug_of ev (last (filter (\<lambda>f. fst f = nm)
               (filter (rasterizes ev) (stored_files uploaded s))))))
        \<and> (\<exists>rs. map_of (file_results (fst (coordinator ev workers uploaded sched s))) nm = Some rs
             \<and> sorted (map result_page rs)
             \<and> ((\<forall>j < length (run_items ev uploaded s).
                    fst (run_items ev uploaded s ! j) = nm
                      \<longrightarrow> returns ev (run_items ev uploaded s) j)
                  \<longrightarrow> map result_page rs =
                        sort (concat (map (doc_pages ev)
                          (filter (\<lambda>f. fst f = nm) (stored_files uploaded s)))))))"
proof (intro conjI impI)
  show "distinct (map fst (file_results (fst (coordinator ev workers uploaded sched s))))"
    by (rule run_keys_distinct [OF assms(1,2)])
next
  assume nm: "nm \<in> set (rasterized_names ev (stored_files uploaded s))"
  then show "map_of (file_results (after_rasterize ev uploaded s)) nm = Some []"
    by (simp add: after_rasterize_results)
  from nm show "map_of (debug_info (fst (coordinator ev workers uploaded sched s))) nm =
            Some (snd (debug_of ev (last (filter (\<lambda>f. fst f = nm)
               (filter (rasterizes ev) (stored_files uploaded s))))))"
    by (rule run_debug [OF assms(1,2)])
  from nm show "\<exists>rs. map_of (file_results (fst (coordinator ev workers uploaded sched s))) nm = Some rs
             \<and> sorted (map result_page rs)
             \<and> ((\<forall>j < length (run_items ev uploaded s).
                    fst (run_items ev uploaded s ! j) = nm
                      \<longrightarrow> returns ev (run_items ev uploaded s) j)
                  \<longrightarrow> map result_page rs =
                        sort (concat (map (doc_pages ev)
                          (filter (\<lambda>f. fst f = nm) (stored_files uploaded s)))))"
    by (rule run_named_pages [OF assms])
qed

lemma demo_dup:
  "dup_upload \<noteq> []"
  "stored_files dup_upload fresh = dup_upload"
  "run_items demo_env dup_upload fresh =
     [(''a.pdf'', 7, 1), (''a.pdf'', 8, 2), (''a.pdf'', 9, 3), (''a.pdf'', 1, 1), (''a.pdf'', 2, 2)]"
  "''a.pdf'' \<in> set (rasterized_names demo_env (stored_files dup_upload fresh))"
  by (simp_all add: run_items_def stored_files_def work_items_def file_items_def demo_env_simps
      dup_upload_def initial_state_def fresh_def enumerate_eq_zip rasterized_names_def
      rasterizes_def)

lemma demo_dup_order: "completion_order (length (run_items demo_env dup_upload fresh)) mixed_order"
  by (simp add: demo_dup completion_order_def mixed_order_def upt_rec numeral_eq_Suc)

lemma demo_dup_returns:
  "\<forall>j < length (run_items demo_env dup_upload fresh).
     fst (run_items demo_env dup_upload fresh ! j) = ''a.pdf''
       \<longrightarrow> returns demo_env (run_items demo_env dup_upload fresh) j"
proof (intro allI impI)
  fix j
  assume "j < length (run_items demo_env dup_upload fresh)"
  then have "j = 0 \<or> j = 1 \<or> j = 2 \<or> j = 3 \<or> j = 4"
    by (simp add: demo_dup) arith
  then show "returns demo_env (run_items demo_env dup_upload fresh) j"
    by (auto simp: returns_save demo_dup demo_env_simps answering_simps)
qed

lemma demo_dup_last:
  "snd (debug_of demo_env (last (filter (\<lambda>f. fst f = ''a.pdf'')
      (filter (rasterizes demo_env) (stored_files dup_upload fresh)))))
    = \<lparr>pdf_size = 2, page_count = 2\<rparr>"
  unfolding demo_dup(2)
  by (simp add: dup_upload_def rasterizes_def demo_env_simps debug_of_def)

lemma demo_dup_pages:
  "sort (concat (map (doc_pages demo_env)
      (filter (\<lambda>f. fst f = ''a.pdf'') (stored_files dup_upload fresh)))) = [1, 1, 2, 2, 3]"
  unfolding demo_dup(2)
  by (simp add: dup_upload_def doc_pages_def demo_env_simps upt_rec)

theorem same_name_single_group_witness:
  "dup_upload \<noteq> [] \<and> \<not> processed fresh
   \<and> completion_order (length (run_items demo_env dup_upload fresh)) mixed_order
   \<and> ''a.pdf'' \<in> set (rasterized_names demo_env (stored_files dup_upload fresh))
   \<and> distinct (map fst (file_results (fst (coordinator demo_env 2 dup_upload mixed_order fresh))))
   \<and> map_of (debug_info (fst (coordinator demo_env 2 dup_upload mixed_order fresh))) ''a.pdf''
       = Some \<lparr>pdf_size = 2, page_count = 2\<rparr>
   \<and> map result_page
        (the (map_of (file_results (fst (coordinator demo_env 2 dup_upload mixed_order fresh)))
                ''a.pdf'')) = [1, 1, 2, 2, 3]"
proof -
  note t = same_name_single_group [OF demo_dup(1) demo_guard(3) demo_dup_order,
      of 2 "''a.pdf''"]
  note keys = t [THEN conjunct1]
    and named = t [THEN conjunct2, rule_format, OF demo_dup(4)]
  note dbg = named [THEN conjunct2, THEN conjunct1, unfolded demo_dup_last]
  from named [THEN conjunct2, THEN conjunct2] obtain rs where
    rs: "map_of (file_results (fst (coordinator demo_env 2 dup_upload mixed_order fresh))) ''a.pdf''
          = Some rs"
    and full: "(\<forall>j < length (run_items demo_env dup_upload fresh).
                    fst (run_items demo_env dup_upload fresh ! j) = ''a.pdf''
                      \<longrightarrow> returns demo_env (run_items demo_env dup_upload fresh) j)
                  \<longrightarrow> map result_page rs =
                        sort (concat (map (doc_pages demo_env)
                          (filter (\<lambda>f. fst f = ''a.pdf'') (stored_files dup_upload fresh))))"
    by (elim exE conjE)
  from full demo_dup_returns have "map result_page rs =
                        sort (concat (map (doc_pages demo_env)
                          (filter (\<lambda>f. fst f = ''a.pdf'') (stored_files dup_upload fresh))))"
    by (rule mp)
  with rs have pages: "map result_page
        (the (map_of (file_results (fst (coordinator demo_env 2 dup_upload mixed_order fresh)))
                ''a.pdf'')) = [1, 1, 2, 2, 3]"
    by (simp add: demo_dup_pages)
  show ?thesis
    by (intro conjI) (fact demo_dup(1,4) demo_guard(3) demo_dup_order keys dbg pages)+
qed

end
